theory Spec2Isabelle
  imports Complex_Main
begin

section \<open>Testset generation orchestrator (ragas/testset/generator.py)\<close>

text \<open>
  A shallow embedding of \<^verbatim>\<open>TestsetGenerator\<close>. Python objects that the generator
  mutates (the docstore, the strategy objects that are the keys of the distribution)
  are passed in and returned updated. Calls on external collaborators are appended to
  a log in program order. Whatever the outside world decides (which nodes the docstore
  draws, what \<^verbatim>\<open>random.choices\<close> picks, how each job ends) is read from an
  environment record.

  A weight is a finite Python float, modelled by its exact rational value. The product
  of line 223 is rounded to binary64 as the hardware rounds it, and an infinite product
  raises as Python's \<^verbatim>\<open>round\<close> does. The sum of the weights, which feeds only the
  validation and its message, is the exact sum. NaN and infinite weights are outside
  the model.
\<close>

subsection \<open>Data model\<close>

type_synonym llm = string
type_synonym node = string

datatype document = FromLlamaindex string | FromLangchain string

record run_config =
  max_retries :: int
  max_wait :: int

datatype question_filter = QuestionFilter llm
datatype node_filter = NodeFilter llm
datatype evolution_filter = EvolutionFilter llm
datatype extractor = KeyphraseExtractor llm

text \<open>A reference to a docstore object (strategies hold the object, not a copy).\<close>

datatype docstore_ref = DocstoreRef nat

record docstore_state =
  ds_ref :: docstore_ref
  in_memory :: bool
  extractor :: "extractor option"
  documents :: "document list"
  ds_run_config :: "run_config option"

text \<open>
  An evolution strategy object. \<open>is_complex\<close> is
  \<^verbatim>\<open>isinstance(evolution, ComplexEvolution)\<close>; \<open>evolution_filter\<close> is read and written
  only for such strategies.
\<close>

record evolution =
  class_name :: string
  is_complex :: bool
  generator_llm :: "llm option"
  docstore :: "docstore_ref option"
  question_filter :: "question_filter option"
  node_filter :: "node_filter option"
  evolution_filter :: "evolution_filter option"

record testset_generator =
  self_generator_llm :: llm
  self_critic_llm :: llm
  self_embeddings :: string
  self_docstore :: docstore_state

record current_nodes =
  root_node :: node
  nodes :: "node list"

text \<open>
  Modelled from the spec: \<^verbatim>\<open>DataRow\<close> (\<^verbatim>\<open>ragas.testset.evolutions\<close>) is not part of
  the sources. The spec: question text, generated answer, contexts used, metadata.
\<close>

record data_row =
  question :: string
  answer :: string
  contexts :: "string list"
  metadata :: string

text \<open>What a job hands back: a finished row, or the sentinel NaN.\<close>

datatype result = NaN | Row data_row

record test_dataset =
  test_data :: "result list"

text \<open>
  \<open>ValueError s\<close> is the error of line 188, whose message carries the sum \<open>s\<close>;
  \<open>JobError\<close> is the underlying error of a job that the executor re-raises;
  \<open>OverflowError\<close> is what the conversion of an int too large for a float, and
  \<^verbatim>\<open>round\<close> of an infinite float, raise.
\<close>

datatype py_error =
    ValueError rat
  | IndexError
  | AssertionError string
  | JobError string
  | DocstoreError
  | OverflowError

text \<open>How a submitted job ends when it is run: it returns, or it exhausts its retries.\<close>

datatype outcome = Returned result | Exhausted string

text \<open>
  A job queued in the executor: the strategy whose \<^verbatim>\<open>evolve\<close> is called (its
  position in the distribution), the seed bundle passed (its index in
  \<^verbatim>\<open>current_nodes\<close>) and the job's name.
\<close>

record job =
  job_evolution :: nat
  job_seed :: nat
  job_name :: string

record executor =
  desc :: string
  keep_progress_bar :: bool
  ex_raise_exceptions :: bool
  ex_jobs :: "job list"

text \<open>
  Calls on collaborators outside the file, logged in program order; a strategy is named
  by its position in the list or distribution that was passed. What these calls do, and
  whether they fail, is outside the model.
\<close>

datatype call =
    ExtractorSave "string option"
  | ExtractorAdapt string "string option"
  | EvolutionInit nat "bool option" "run_config option"
  | EvolutionAdapt nat string "string option"
  | EvolutionSave nat "string option"
  | PatchLogger string
  | Track "string list" "rat list" nat

text \<open>
  The outside world of one call: the nodes in the order in which the docstore draws
  them, the raw value of the \<open>j\<close>-th draw of \<^verbatim>\<open>random.choices\<close>, and how the \<open>j\<close>-th
  submitted job ends.
\<close>

record env =
  node_draw :: "node list"
  random_index :: "nat \<Rightarrow> nat"
  job_outcome :: "nat \<Rightarrow> outcome"

text \<open>The \<^verbatim>\<open>distributions\<close> dict: strategy objects with their weights, in insertion order.\<close>

type_synonym distributions_t = "(evolution \<times> rat) list"

text \<open>The arguments of \<^verbatim>\<open>generate\<close>; \<open>None\<close> is an argument that the caller does not pass.\<close>

record generate_args =
  test_size :: int
  distributions :: "distributions_t option"
  with_debugging_logs :: "bool option"
  is_async :: "bool option"
  raise_exceptions :: "bool option"
  run_config :: "run_config option"

text \<open>What a call leaves behind, whether it returns or raises.\<close>

record effects =
  docstore_after :: docstore_state
  evolutions_after :: "evolution list"
  submitted :: "job list"
  calls :: "call list"

subsection \<open>Python primitives\<close>

text \<open>\<^verbatim>\<open>round(x)\<close> on a float: to the nearest integer, a tie to the even one.\<close>

definition py_round :: "rat \<Rightarrow> int" where
  "py_round x =
     (let f = \<lfloor>x\<rfloor>; d = x - of_int f
      in if d < 1 / 2 then f
         else if 1 / 2 < d then f + 1
         else if even f then f else f + 1)"

text \<open>The number of binary digits of a natural number.\<close>

fun bit_length :: "nat \<Rightarrow> nat" where
  "bit_length n = (if n = 0 then 0 else Suc (bit_length (n div 2)))"

text \<open>
  The binary exponent of a nonzero rational \<open>x\<close>: the \<open>e\<close> with
  \<open>2 powi e \<le> \<bar>x\<bar> < 2 powi (e + 1)\<close>. The bit lengths of numerator and
  denominator give it up to one, the comparison settles it.
\<close>

definition binade :: "rat \<Rightarrow> int" where
  "binade x =
     (let (a, b) = quotient_of \<bar>x\<bar>;
          d = int (bit_length (nat a)) - int (bit_length (nat b))
      in if 2 powi d \<le> \<bar>x\<bar> then d else d - 1)"

text \<open>
  Rounding to binary64: to the nearest number with a mantissa of 53 bits, a tie to the
  even mantissa, with gradual underflow below the exponent -1074 of the last bit. The
  exponent is not bounded above here; a result of magnitude \<open>2 ^ 1024\<close> or more is what
  the hardware turns into an infinity.
\<close>

definition round_binary64 :: "rat \<Rightarrow> rat" where
  "round_binary64 x =
     (if x = 0 then 0
      else let q = max (binade x - 52) (- 1074)
           in of_int (py_round (x / 2 powi q)) * 2 powi q)"

definition float_overflow :: "rat \<Rightarrow> bool" where
  "float_overflow r = (2 ^ 1024 \<le> \<bar>r\<bar>)"

text \<open>
  \<^verbatim>\<open>round(probability * test_size)\<close> of line 223, a float times an int: the int is
  converted to a float, which raises OverflowError when it is too large; the product is
  rounded to binary64; \<^verbatim>\<open>round\<close> of an infinite product raises OverflowError.
\<close>

definition round_product :: "rat \<Rightarrow> int \<Rightarrow> py_error + int" where
  "round_product probability ts =
     (let t = round_binary64 (of_int ts)
      in if float_overflow t then Inl OverflowError
         else let r = round_binary64 (probability * t)
              in if float_overflow r then Inl OverflowError else Inr (py_round r))"

text \<open>\<^verbatim>\<open>range(n)\<close> for a Python int \<open>n\<close>: empty when \<open>n \<le> 0\<close>.\<close>

definition py_range :: "int \<Rightarrow> nat list" where
  "py_range n = [0 ..< nat n]"

definition digit_char :: "nat \<Rightarrow> char" where
  "digit_char d = char_of (48 + d)"

fun str_nat :: "nat \<Rightarrow> string" where
  "str_nat n = (if n < 10 then [digit_char n] else str_nat (n div 10) @ [digit_char (n mod 10)])"

definition lower_char :: "char \<Rightarrow> char" where
  "lower_char c =
     (let n = (of_char c :: nat) in if 65 \<le> n \<and> n \<le> 90 then char_of (n + 32) else c)"

definition lower :: "string \<Rightarrow> string" where
  "lower s = map lower_char s"

text \<open>
  \<^verbatim>\<open>random.choices(population, k=k)\<close>: \<open>k\<close> draws with replacement, each uniform over
  the population; the \<open>j\<close>-th draw takes the environment's \<open>j\<close>-th random value
  reduced to an index. With an empty population a draw raises IndexError.
\<close>

definition choices :: "(nat \<Rightarrow> nat) \<Rightarrow> 'a list \<Rightarrow> nat \<Rightarrow> py_error + 'a list" where
  "choices rnd population k =
     (if k = 0 then Inr []
      else if population = [] then Inl IndexError
      else Inr (map (\<lambda>j. population ! (rnd j mod length population)) [0 ..< k]))"

subsection \<open>Collaborators outside the file\<close>

text \<open>
  Modelled from the spec: \<^verbatim>\<open>check_if_sum_is_close\<close> of \<^verbatim>\<open>ragas.utils\<close> is not part
  of the sources. The spec: compute the sum and compare it to the target within a
  fixed decimal tolerance (3 decimal places, that is 1e-3).
\<close>

definition check_if_sum_is_close :: "rat list \<Rightarrow> rat \<Rightarrow> nat \<Rightarrow> bool" where
  "check_if_sum_is_close values close_to num_places =
     (\<bar>sum_list values - close_to\<bar> \<le> 1 / 10 ^ num_places)"

text \<open>
  Modelled from the spec: \<^verbatim>\<open>is_nan\<close> of \<^verbatim>\<open>ragas.utils\<close> is not part of the sources.
  The spec: it recognises the sentinel "empty/NaN" value among the results.
\<close>

fun is_nan :: "result \<Rightarrow> bool" where
  "is_nan NaN = True"
| "is_nan (Row r) = False"

text \<open>
  Modelled from the spec: \<^verbatim>\<open>add_documents\<close> of the docstore
  (\<^verbatim>\<open>ragas.testset.docstore\<close>) is not part of the sources. The spec: the docstore
  accepts a sequence of externally-sourced documents.
\<close>

definition add_documents :: "docstore_state \<Rightarrow> document list \<Rightarrow> docstore_state" where
  "add_documents ds docs = ds\<lparr>documents := documents ds @ docs\<rparr>"

text \<open>
  Modelled from the spec: \<^verbatim>\<open>set_run_config\<close> of the docstore is not part of the
  sources. The spec: it applies the run budget to the docstore's own operations.
\<close>

definition set_run_config :: "docstore_state \<Rightarrow> run_config \<Rightarrow> docstore_state" where
  "set_run_config ds rc = ds\<lparr>ds_run_config := Some rc\<rparr>"

text \<open>
  Modelled from the spec: \<^verbatim>\<open>get_random_nodes\<close> of the docstore is not part of the
  sources. The spec: \<^verbatim>\<open>get_random_nodes(k)\<close> returns exactly \<open>k\<close> nodes and fails if
  the store has fewer available. The environment gives the nodes in the order of the
  draw.
\<close>

definition get_random_nodes :: "env \<Rightarrow> int \<Rightarrow> py_error + node list" where
  "get_random_nodes ev k =
     (if 0 \<le> k \<and> nat k \<le> length (node_draw ev)
      then Inr (take (nat k) (node_draw ev))
      else Inl DocstoreError)"

text \<open>
  Modelled from the spec: \<^verbatim>\<open>submit\<close> of the executor (\<^verbatim>\<open>ragas.executor\<close>) is not
  part of the sources. The spec: it enqueues a named job, without running it, and
  keeps the submission order.
\<close>

definition submit :: "executor \<Rightarrow> nat \<Rightarrow> nat \<Rightarrow> string \<Rightarrow> executor" where
  "submit ex k i name =
     ex\<lparr>ex_jobs := ex_jobs ex @ [\<lparr>job_evolution = k, job_seed = i, job_name = name\<rparr>]\<rparr>"

text \<open>
  Modelled from the spec: \<^verbatim>\<open>results\<close> of the executor is not part of the sources. The
  spec: it runs all submitted jobs and returns their results in submission order; a job
  that exhausts its retries yields the sentinel, unless the executor is configured to
  raise, in which case the first unrecoverable failure aborts \<^verbatim>\<open>results\<close> with the
  underlying error. \<open>run_jobs\<close> goes through the jobs by their position in the
  queue; the environment says how each ends.
\<close>

fun run_jobs :: "bool \<Rightarrow> (nat \<Rightarrow> outcome) \<Rightarrow> nat list \<Rightarrow> py_error + result list" where
  "run_jobs re oc [] = Inr []"
| "run_jobs re oc (j # js) =
     (case oc j of
        Returned r \<Rightarrow>
          (case run_jobs re oc js of Inl e \<Rightarrow> Inl e | Inr rs \<Rightarrow> Inr (r # rs))
      | Exhausted msg \<Rightarrow>
          (if re then Inl (JobError msg)
           else (case run_jobs re oc js of Inl e \<Rightarrow> Inl e | Inr rs \<Rightarrow> Inr (NaN # rs))))"

text \<open>Modelled from the spec: \<^verbatim>\<open>results\<close>, on the queue of the executor (see above).\<close>

definition results :: "executor \<Rightarrow> env \<Rightarrow> py_error + result list" where
  "results ex ev = run_jobs (ex_raise_exceptions ex) (job_outcome ev) [0 ..< length (ex_jobs ex)]"

text \<open>
  Modelled from the spec: the constructors of the strategies
  (\<^verbatim>\<open>ragas.testset.evolutions\<close>) are not part of the sources. The spec: the
  collaborators of a strategy are optional and unbound until the orchestrator binds them.
\<close>

definition unbound :: "string \<Rightarrow> bool \<Rightarrow> evolution" where
  "unbound cls cplx =
     \<lparr>class_name = cls, is_complex = cplx, generator_llm = None, docstore = None,
      question_filter = None, node_filter = None, evolution_filter = None\<rparr>"

text \<open>
  Modelled from the spec: the module-level strategy objects \<^verbatim>\<open>simple\<close>,
  \<^verbatim>\<open>reasoning\<close> and \<^verbatim>\<open>multi_context\<close> of \<^verbatim>\<open>ragas.testset.evolutions\<close> are not part
  of the sources. The spec: simple, reasoning and multi-context composite kinds; the
  kinds that compare evolutions carry an evolution filter.
\<close>

definition simple :: evolution where
  "simple = unbound ''SimpleEvolution'' False"

definition reasoning :: evolution where
  "reasoning = unbound ''ReasoningEvolution'' True"

definition multi_context :: evolution where
  "multi_context = unbound ''MultiContextEvolution'' True"

text \<open>Line 39.\<close>

definition DEFAULT_DISTRIBUTION :: distributions_t where
  "DEFAULT_DISTRIBUTION = [(simple, 1 / 2), (reasoning, 1 / 4), (multi_context, 1 / 4)]"

subsection \<open>init_evolution (lines 162-175)\<close>

definition init_evolution :: "testset_generator \<Rightarrow> evolution \<Rightarrow> evolution" where
  "init_evolution self evolution =
     (if generator_llm evolution = None then
        let e1 = evolution\<lparr>generator_llm := Some (self_generator_llm self)\<rparr>;
            e2 = (if docstore e1 = None
                  then e1\<lparr>docstore := Some (ds_ref (self_docstore self))\<rparr> else e1);
            e3 = (if question_filter e2 = None
                  then e2\<lparr>question_filter := Some (QuestionFilter (self_critic_llm self))\<rparr>
                  else e2);
            e4 = (if node_filter e3 = None
                  then e3\<lparr>node_filter := Some (NodeFilter (self_critic_llm self))\<rparr>
                  else e3)
        in if is_complex e4 then
             (if evolution_filter e4 = None
              then e4\<lparr>evolution_filter := Some (EvolutionFilter (self_critic_llm self))\<rparr>
              else e4)
           else e4
      else evolution)"

subsection \<open>generate (lines 177-259)\<close>

text \<open>Lines 198-200: bind each strategy, then call its \<^verbatim>\<open>init\<close>.\<close>

fun init_loop ::
  "testset_generator \<Rightarrow> bool \<Rightarrow> run_config \<Rightarrow> nat \<Rightarrow> evolution list \<Rightarrow> call list
     \<Rightarrow> evolution list \<times> call list" where
  "init_loop self ia rc k [] cs = ([], cs)"
| "init_loop self ia rc k (evolution # rest) cs =
     (let e' = init_evolution self evolution;
          (es', cs') = init_loop self ia rc (Suc k) rest (cs @ [EvolutionInit k (Some ia) (Some rc)])
      in (e' # es', cs'))"

text \<open>
  Lines 223-229, the inner loop for one strategy: the loop variable \<open>i\<close> both indexes
  \<^verbatim>\<open>current_nodes\<close> and names the job. Reading \<^verbatim>\<open>current_nodes[i]\<close> out of range
  raises IndexError. The state is the executor and \<^verbatim>\<open>total_evolutions\<close>.
\<close>

fun submit_jobs ::
  "current_nodes list \<Rightarrow> nat \<Rightarrow> string \<Rightarrow> nat list \<Rightarrow> executor \<times> nat
     \<Rightarrow> py_error option \<times> executor \<times> nat" where
  "submit_jobs cn k cls [] st = (None, st)"
| "submit_jobs cn k cls (i # rest) (ex, total_evolutions) =
     (if i < length cn
      then submit_jobs cn k cls rest
             (submit ex k i (cls @ ''-'' @ str_nat i), total_evolutions + 1)
      else (Some IndexError, ex, total_evolutions))"

text \<open>Lines 222-229, the loop over the items of the distribution, numbered from \<open>k\<close>.\<close>

fun partition_loop ::
  "current_nodes list \<Rightarrow> int \<Rightarrow> nat \<Rightarrow> distributions_t \<Rightarrow> executor \<times> nat
     \<Rightarrow> py_error option \<times> executor \<times> nat" where
  "partition_loop cn ts k [] st = (None, st)"
| "partition_loop cn ts k ((evolution, probability) # rest) st =
     (case round_product probability ts of
        Inl e \<Rightarrow> (Some e, st)
      | Inr n \<Rightarrow>
          (case submit_jobs cn k (class_name evolution) (py_range n) st of
             (Some e, st') \<Rightarrow> (Some e, st')
           | (None, st') \<Rightarrow> partition_loop cn ts (Suc k) rest st'))"

text \<open>
  Lines 234-240, the filler loop over the drawn strategies (each given with its position
  in the distribution): here \<^verbatim>\<open>total_evolutions\<close> indexes \<^verbatim>\<open>current_nodes\<close> and names
  the job.
\<close>

fun filler_loop ::
  "current_nodes list \<Rightarrow> (nat \<times> evolution) list \<Rightarrow> executor \<times> nat
     \<Rightarrow> py_error option \<times> executor \<times> nat" where
  "filler_loop cn [] st = (None, st)"
| "filler_loop cn ((k, evolution) # rest) (ex, total_evolutions) =
     (if total_evolutions < length cn
      then filler_loop cn rest
             (submit ex k total_evolutions
                (class_name evolution @ ''-'' @ str_nat total_evolutions),
              total_evolutions + 1)
      else (Some IndexError, ex, total_evolutions))"

text \<open>Line 248: the list comprehension that drops the sentinels.\<close>

definition drop_nan :: "result list \<Rightarrow> result list" where
  "drop_nan rows = filter (\<lambda>r. \<not> is_nan r) rows"

definition debug_loggers :: "string list" where
  "debug_loggers =
     [''ragas.testset.evolutions'', ''ragas.testset.extractor'', ''ragas.testset.filters'',
      ''ragas.testset.docstore'', ''ragas.llms.prompt'']"

text \<open>
  Lines 230-259, from the reconciliation test on: the filler pass, the run of the jobs,
  the filter and the telemetry event.
\<close>

definition finish ::
  "env \<Rightarrow> int \<Rightarrow> distributions_t \<Rightarrow> current_nodes list \<Rightarrow> docstore_state \<Rightarrow> evolution list
     \<Rightarrow> call list \<Rightarrow> executor \<times> nat \<Rightarrow> (py_error + test_dataset) \<times> effects" where
  "finish ev ts dists cn ds es cs st =
     (let (ex, total_evolutions) = st;
          filled =
            (if int total_evolutions \<le> ts then
               (case choices (random_index ev) (zip [0 ..< length dists] (map fst dists))
                       (nat (ts - int total_evolutions)) of
                  Inl e \<Rightarrow> (Some e, ex, total_evolutions)
                | Inr filler_evolutions \<Rightarrow> filler_loop cn filler_evolutions (ex, total_evolutions))
             else (None, ex, total_evolutions))
      in case filled of
           (Some e, ex', n') \<Rightarrow>
             (Inl e, \<lparr>docstore_after = ds, evolutions_after = es,
                      submitted = ex_jobs ex', calls = cs\<rparr>)
         | (None, ex', n') \<Rightarrow>
             (case results ex' ev of
                Inl e \<Rightarrow>
                  (Inl e, \<lparr>docstore_after = ds, evolutions_after = es,
                           submitted = ex_jobs ex', calls = cs\<rparr>)
              | Inr rows \<Rightarrow>
                  (let test_data_rows = drop_nan rows;
                       test_dataset = \<lparr>test_data = test_data_rows\<rparr>
                   in (Inr test_dataset,
                       \<lparr>docstore_after = ds, evolutions_after = es, submitted = ex_jobs ex',
                        calls = cs @ [Track (map (\<lambda>e. lower (class_name e)) (map fst dists))
                                        (map snd dists) (length (test_data test_dataset))]\<rparr>))))"

text \<open>
  Lines 211-259: the executor is created, the nodes are drawn and wrapped, the main
  pass submits its jobs, and the rest follows.
\<close>

definition submit_and_run ::
  "env \<Rightarrow> int \<Rightarrow> distributions_t \<Rightarrow> bool \<Rightarrow> docstore_state \<Rightarrow> evolution list
     \<Rightarrow> call list \<Rightarrow> (py_error + test_dataset) \<times> effects" where
  "submit_and_run ev ts dists re ds es cs =
     (let ex = \<lparr>desc = ''Generating'', keep_progress_bar = True,
                ex_raise_exceptions = re, ex_jobs = []\<rparr>
      in case get_random_nodes ev ts of
           Inl e \<Rightarrow>
             (Inl e, \<lparr>docstore_after = ds, evolutions_after = es,
                      submitted = [], calls = cs\<rparr>)
         | Inr ns \<Rightarrow>
             (let cn = map (\<lambda>n. \<lparr>root_node = n, nodes = [n]\<rparr>) ns
              in case partition_loop cn ts 0 dists (ex, 0) of
                   (Some e, ex', n') \<Rightarrow>
                     (Inl e, \<lparr>docstore_after = ds, evolutions_after = es,
                              submitted = ex_jobs ex', calls = cs\<rparr>)
                 | (None, st') \<Rightarrow> finish ev ts dists cn ds es cs st'))"

text \<open>
  Lines 186-209: validation, the run budget, the binding of the strategies and the
  optional debug logging; then the phases above.
\<close>

definition generate ::
  "testset_generator \<Rightarrow> env \<Rightarrow> generate_args \<Rightarrow> (py_error + test_dataset) \<times> effects" where
  "generate self ev args =
     (let ts = test_size args;
          dists = (case distributions args of None \<Rightarrow> DEFAULT_DISTRIBUTION | Some d \<Rightarrow> d);
          debug = (case with_debugging_logs args of None \<Rightarrow> False | Some b \<Rightarrow> b);
          ia = (case is_async args of None \<Rightarrow> True | Some b \<Rightarrow> b);
          re = (case raise_exceptions args of None \<Rightarrow> True | Some b \<Rightarrow> b)
      in if \<not> check_if_sum_is_close (map snd dists) 1 3 then
           (Inl (ValueError (sum_list (map snd dists))),
            \<lparr>docstore_after = self_docstore self, evolutions_after = map fst dists,
             submitted = [], calls = []\<rparr>)
         else
           let rc = (case run_config args of
                       None \<Rightarrow> \<lparr>max_retries = 15, max_wait = 90\<rparr> | Some c \<Rightarrow> c);
               ds = set_run_config (self_docstore self) rc;
               (es, cs1) = init_loop (self\<lparr>self_docstore := ds\<rparr>) ia rc 0 (map fst dists) [];
               dists' = zip es (map snd dists);
               cs = (if debug then cs1 @ map PatchLogger debug_loggers else cs1)
           in submit_and_run ev ts dists' re ds es cs)"

subsection \<open>The document entry points (lines 112-160)\<close>

text \<open>
  Both add the converted documents to the docstore, then call \<^verbatim>\<open>generate\<close> with every
  argument passed explicitly; their default for \<^verbatim>\<open>distributions\<close> is the empty mapping.
\<close>

definition explicit_args :: "generate_args \<Rightarrow> generate_args" where
  "explicit_args args =
     \<lparr>test_size = test_size args,
      distributions = Some (case distributions args of None \<Rightarrow> [] | Some d \<Rightarrow> d),
      with_debugging_logs = Some (case with_debugging_logs args of None \<Rightarrow> False | Some b \<Rightarrow> b),
      is_async = Some (case is_async args of None \<Rightarrow> True | Some b \<Rightarrow> b),
      raise_exceptions = Some (case raise_exceptions args of None \<Rightarrow> True | Some b \<Rightarrow> b),
      run_config = run_config args\<rparr>"

definition generate_with_llamaindex_docs ::
  "testset_generator \<Rightarrow> env \<Rightarrow> string list \<Rightarrow> generate_args
     \<Rightarrow> (py_error + test_dataset) \<times> effects" where
  "generate_with_llamaindex_docs self ev docs args =
     generate
       (self\<lparr>self_docstore := add_documents (self_docstore self) (map FromLlamaindex docs)\<rparr>)
       ev (explicit_args args)"

definition generate_with_langchain_docs ::
  "testset_generator \<Rightarrow> env \<Rightarrow> string list \<Rightarrow> generate_args
     \<Rightarrow> (py_error + test_dataset) \<times> effects" where
  "generate_with_langchain_docs self ev docs args =
     generate
       (self\<lparr>self_docstore := add_documents (self_docstore self) (map FromLangchain docs)\<rparr>)
       ev (explicit_args args)"

subsection \<open>adapt and save (lines 261-297)\<close>

text \<open>
  The filters that a strategy needs before its state is saved or adapted: node filter,
  question filter and, for a composite kind, evolution filter (what lines 291-296
  assert).
\<close>

definition filters_set :: "evolution \<Rightarrow> bool" where
  "filters_set e =
     (node_filter e \<noteq> None \<and> question_filter e \<noteq> None
      \<and> (is_complex e \<longrightarrow> evolution_filter e \<noteq> None))"

text \<open>
  Modelled from the spec: \<^verbatim>\<open>adapt\<close> of a strategy (\<^verbatim>\<open>ragas.testset.evolutions\<close>) is
  not part of the sources. The spec: attempting to adapt state on a strategy whose
  filters are unset is an unrecoverable precondition error. Otherwise the call is
  logged.
\<close>

definition evolution_adapt ::
  "nat \<Rightarrow> evolution \<Rightarrow> string \<Rightarrow> string option \<Rightarrow> py_error + call" where
  "evolution_adapt k evolution language cache_dir =
     (if filters_set evolution then Inr (EvolutionAdapt k language cache_dir)
      else Inl (AssertionError ''filters are not set''))"

text \<open>
  Lines 273-276. When the strategy's \<^verbatim>\<open>adapt\<close> raises, the strategies before it and
  the strategy itself have been through \<^verbatim>\<open>init_evolution\<close>, the later ones have not.
\<close>

fun adapt_loop ::
  "testset_generator \<Rightarrow> string \<Rightarrow> string option \<Rightarrow> nat \<Rightarrow> evolution list \<Rightarrow> call list
     \<Rightarrow> py_error option \<times> evolution list \<times> call list" where
  "adapt_loop self language cache_dir k [] cs = (None, [], cs)"
| "adapt_loop self language cache_dir k (evolution # rest) cs =
     (let e' = init_evolution self evolution;
          cs1 = cs @ [EvolutionInit k None None]
      in case evolution_adapt k e' language cache_dir of
           Inl err \<Rightarrow> (Some err, e' # rest, cs1)
         | Inr c \<Rightarrow>
             (let (r, es', cs') = adapt_loop self language cache_dir (Suc k) rest (cs1 @ [c])
              in (r, e' # es', cs')))"

definition adapt ::
  "testset_generator \<Rightarrow> string \<Rightarrow> evolution list \<Rightarrow> string option
     \<Rightarrow> py_error option \<times> evolution list \<times> call list" where
  "adapt self language evolutions cache_dir =
     (if \<not> in_memory (self_docstore self)
      then (Some (AssertionError ''Must be an instance of in-memory docstore''), evolutions, [])
      else if extractor (self_docstore self) = None
      then (Some (AssertionError ''Extractor is not set''), evolutions, [])
      else adapt_loop self language cache_dir 0 evolutions [ExtractorAdapt language cache_dir])"

text \<open>
  Lines 290-297. The assertions come first for each strategy, so the strategy's own
  \<^verbatim>\<open>save\<close> is only called with its filters set; the call is logged.
\<close>

fun save_loop ::
  "string option \<Rightarrow> nat \<Rightarrow> evolution list \<Rightarrow> call list \<Rightarrow> py_error option \<times> call list" where
  "save_loop cache_dir k [] cs = (None, cs)"
| "save_loop cache_dir k (evolution # rest) cs =
     (if node_filter evolution = None
      then (Some (AssertionError ''NodeFilter is not set''), cs)
      else if question_filter evolution = None
      then (Some (AssertionError ''QuestionFilter is not set''), cs)
      else if is_complex evolution \<and> evolution_filter evolution = None
      then (Some (AssertionError ''EvolutionFilter is not set''), cs)
      else save_loop cache_dir (Suc k) rest (cs @ [EvolutionSave k cache_dir]))"

definition save ::
  "testset_generator \<Rightarrow> evolution list \<Rightarrow> string option \<Rightarrow> py_error option \<times> call list" where
  "save self evolutions cache_dir =
     (if \<not> in_memory (self_docstore self)
      then (Some (AssertionError ''Must be an instance of in-memory docstore''), [])
      else if extractor (self_docstore self) = None
      then (Some (AssertionError ''Extractor is not set''), [])
      else save_loop cache_dir 0 evolutions [ExtractorSave cache_dir])"

subsection \<open>Notions used to state the properties\<close>

text \<open>The job that the main pass submits for strategy \<open>k\<close> at loop index \<open>i\<close>.\<close>

definition main_job :: "nat \<Rightarrow> string \<Rightarrow> nat \<Rightarrow> job" where
  "main_job k cls i = \<lparr>job_evolution = k, job_seed = i, job_name = cls @ ''-'' @ str_nat i\<rparr>"

text \<open>
  The number of main-pass jobs of a weight, \<^verbatim>\<open>round(probability * test_size)\<close> with
  the product rounded to binary64, and whether computing it raises OverflowError.
\<close>

definition product_overflows :: "int \<Rightarrow> rat \<Rightarrow> bool" where
  "product_overflows ts p =
     (float_overflow (round_binary64 (of_int ts))
      \<or> float_overflow (round_binary64 (p * round_binary64 (of_int ts))))"

definition job_count :: "int \<Rightarrow> rat \<Rightarrow> nat" where
  "job_count ts p = nat (py_round (round_binary64 (p * round_binary64 (of_int ts))))"

definition main_total :: "int \<Rightarrow> rat list \<Rightarrow> nat" where
  "main_total ts ws = sum_list (map (job_count ts) ws)"

text \<open>All jobs of the main pass, for the strategies numbered from \<open>k\<close>.\<close>

fun main_plan :: "nat \<Rightarrow> int \<Rightarrow> distributions_t \<Rightarrow> job list" where
  "main_plan k ts [] = []"
| "main_plan k ts ((e, p) # rest) =
     map (main_job k (class_name e)) [0 ..< job_count ts p] @ main_plan (Suc k) ts rest"

text \<open>The jobs of the filler pass when \<open>t\<close> jobs were submitted before it.\<close>

fun filler_plan :: "nat \<Rightarrow> (nat \<times> evolution) list \<Rightarrow> job list" where
  "filler_plan t [] = []"
| "filler_plan t ((k, e) # rest) =
     \<lparr>job_evolution = k, job_seed = t, job_name = class_name e @ ''-'' @ str_nat t\<rparr>
       # filler_plan (Suc t) rest"

text \<open>The arguments of \<^verbatim>\<open>generate\<close> with their defaults resolved.\<close>

definition the_distributions :: "generate_args \<Rightarrow> distributions_t" where
  "the_distributions args =
     (case distributions args of None \<Rightarrow> DEFAULT_DISTRIBUTION | Some d \<Rightarrow> d)"

definition the_raise_exceptions :: "generate_args \<Rightarrow> bool" where
  "the_raise_exceptions args = (case raise_exceptions args of None \<Rightarrow> True | Some b \<Rightarrow> b)"

definition weights :: "generate_args \<Rightarrow> rat list" where
  "weights args = map snd (the_distributions args)"

text \<open>A job degrades when it exhausts its retries or returns the sentinel itself.\<close>

fun degrades :: "outcome \<Rightarrow> bool" where
  "degrades (Returned (Row r)) = False"
| "degrades (Returned NaN) = True"
| "degrades (Exhausted msg) = True"

fun exhausted :: "outcome \<Rightarrow> bool" where
  "exhausted (Exhausted msg) = True"
| "exhausted (Returned r) = False"

text \<open>The rows of the jobs that did not degrade, in submission order.\<close>

fun surviving_rows :: "(nat \<Rightarrow> outcome) \<Rightarrow> nat list \<Rightarrow> result list" where
  "surviving_rows oc [] = []"
| "surviving_rows oc (j # js) =
     (case oc j of
        Returned (Row r) \<Rightarrow> Row r # surviving_rows oc js
      | Returned NaN \<Rightarrow> surviving_rows oc js
      | Exhausted msg \<Rightarrow> surviving_rows oc js)"

definition assertion_messages :: "string list" where
  "assertion_messages =
     [''NodeFilter is not set'', ''QuestionFilter is not set'', ''EvolutionFilter is not set'']"

text \<open>The seed bundles built from the nodes that the docstore draws (lines 217-220).\<close>

definition seed_bundles :: "env \<Rightarrow> int \<Rightarrow> current_nodes list" where
  "seed_bundles ev ts =
     map (\<lambda>n. \<lparr>root_node = n, nodes = [n]\<rparr>) (take (nat ts) (node_draw ev))"

text \<open>The strategies that \<^verbatim>\<open>random.choices\<close> draws for \<open>k\<close> filler jobs, with their positions.\<close>

definition filler_picks :: "(nat \<Rightarrow> nat) \<Rightarrow> evolution list \<Rightarrow> nat \<Rightarrow> (nat \<times> evolution) list" where
  "filler_picks rnd es k = map (\<lambda>j. zip [0 ..< length es] es ! (rnd j mod length es)) [0 ..< k]"

text \<open>All jobs of a run in which no read of a seed bundle fails: main pass, then fillers.\<close>

definition all_jobs :: "env \<Rightarrow> int \<Rightarrow> distributions_t \<Rightarrow> job list" where
  "all_jobs ev ts d =
     main_plan 0 ts d @
     (if int (main_total ts (map snd d)) \<le> ts
      then filler_plan (main_total ts (map snd d))
             (filler_picks (random_index ev) (map fst d) (nat ts - main_total ts (map snd d)))
      else [])"

definition the_run_config :: "generate_args \<Rightarrow> run_config" where
  "the_run_config args =
     (case run_config args of None \<Rightarrow> \<lparr>max_retries = 15, max_wait = 90\<rparr> | Some c \<Rightarrow> c)"

text \<open>The distribution with its strategies as \<^verbatim>\<open>generate\<close> leaves them bound.\<close>

definition bound_distributions :: "testset_generator \<Rightarrow> generate_args \<Rightarrow> distributions_t" where
  "bound_distributions self args =
     zip (map (init_evolution
                 (self\<lparr>self_docstore :=
                         set_run_config (self_docstore self) (the_run_config args)\<rparr>))
            (map fst (the_distributions args)))
         (map snd (the_distributions args))"

text \<open>What \<^verbatim>\<open>generate\<close> returns once the jobs \<open>js\<close> are submitted: their surviving rows.\<close>

definition outcome_of_jobs :: "bool \<Rightarrow> env \<Rightarrow> job list \<Rightarrow> py_error + test_dataset" where
  "outcome_of_jobs re ev js =
     (case run_jobs re (job_outcome ev) [0 ..< length js] of
        Inl e \<Rightarrow> Inl e
      | Inr rows \<Rightarrow> Inr \<lparr>test_data = drop_nan rows\<rparr>)"

subsection \<open>Concrete inputs\<close>

definition row0 :: data_row where
  "row0 = \<lparr>question = ''q'', answer = ''a'', contexts = [''c''], metadata = ''simple''\<rparr>"

definition ds0 :: docstore_state where
  "ds0 = \<lparr>ds_ref = DocstoreRef 0, in_memory = True,
          extractor = Some (KeyphraseExtractor ''generator''), documents = [],
          ds_run_config = None\<rparr>"

definition gen0 :: testset_generator where
  "gen0 = \<lparr>self_generator_llm = ''generator'', self_critic_llm = ''critic'',
           self_embeddings = ''embeddings'', self_docstore = ds0\<rparr>"

text \<open>A store with \<open>n\<close> nodes; every draw picks the first strategy; every job returns a row.\<close>

definition first_pick :: "nat \<Rightarrow> nat" where
  "first_pick j = 0"

definition all_return :: "nat \<Rightarrow> outcome" where
  "all_return j = Returned (Row row0)"

definition all_exhaust :: "nat \<Rightarrow> outcome" where
  "all_exhaust j = Exhausted ''MaxRetriesExceeded''"

definition env_ok :: "nat \<Rightarrow> env" where
  "env_ok n = \<lparr>node_draw = replicate n ''node'', random_index = first_pick,
               job_outcome = all_return\<rparr>"

definition env_fail :: "nat \<Rightarrow> env" where
  "env_fail n = \<lparr>node_draw = replicate n ''node'', random_index = first_pick,
                 job_outcome = all_exhaust\<rparr>"

text \<open>A call that passes only \<^verbatim>\<open>test_size\<close> and \<^verbatim>\<open>distributions\<close>.\<close>

definition args0 :: "int \<Rightarrow> distributions_t \<Rightarrow> generate_args" where
  "args0 ts d = \<lparr>test_size = ts, distributions = Some d, with_debugging_logs = None,
                 is_async = None, raise_exceptions = None, run_config = None\<rparr>"

text \<open>A call that passes only \<^verbatim>\<open>test_size\<close>.\<close>

definition args_default :: "int \<Rightarrow> generate_args" where
  "args_default ts = \<lparr>test_size = ts, distributions = None, with_debugging_logs = None,
                      is_async = None, raise_exceptions = None, run_config = None\<rparr>"

text \<open>Distributions: two halves; one weight above 1 within the tolerance; a sum of 0.875.\<close>

definition half_half :: distributions_t where
  "half_half = [(simple, 1 / 2), (reasoning, 1 / 2)]"

definition overweight :: distributions_t where
  "overweight = [(simple, 4097 / 4096)]"

definition low_sum :: distributions_t where
  "low_sum = [(simple, 7 / 8)]"

definition all_simple :: distributions_t where
  "all_simple = [(simple, 1)]"

text \<open>A dataset of \<open>n\<close> copies of the row that every job returns in \<open>env_ok\<close>.\<close>

definition rows_of :: "nat \<Rightarrow> test_dataset" where
  "rows_of n = \<lparr>test_data = replicate n (Row row0)\<rparr>"

text \<open>A strategy configured by its owner: a generation model of its own, no filters.\<close>

definition preset :: evolution where
  "preset = (unbound ''SimpleEvolution'' False)\<lparr>generator_llm := Some ''own''\<rparr>"

section \<open>Auxiliary facts\<close>

subsection \<open>Rounding\<close>

lemma py_round_int: "py_round (of_int n) = n"
  by (simp add: py_round_def)

lemma py_round_half: "py_round (of_int n + 1 / 2) = (if even n then n else n + 1)"
proof -
  have "\<lfloor>of_int n + 1 / 2 :: rat\<rfloor> = n" by (simp add: floor_eq_iff)
  then show ?thesis by (simp add: py_round_def Let_def)
qed

lemma py_round_le: "x \<le> of_int n \<Longrightarrow> py_round x \<le> n"
proof -
  assume h: "x \<le> of_int n"
  have fl: "\<lfloor>x\<rfloor> \<le> n" using h by (simp add: floor_le_iff)
  show ?thesis
  proof (cases "x = of_int \<lfloor>x\<rfloor>")
    case True
    then have "x - of_int \<lfloor>x\<rfloor> = 0" by simp
    then show ?thesis using fl by (simp add: py_round_def Let_def)
  next
    case False
    then have "of_int \<lfloor>x\<rfloor> < x"
      using of_int_floor_le[of x] by (metis order.not_eq_order_implies_strict)
    then have "of_int \<lfloor>x\<rfloor> < (of_int n :: rat)" using h by linarith
    then have "\<lfloor>x\<rfloor> < n" by simp
    then show ?thesis by (simp add: py_round_def Let_def)
  qed
qed

subsection \<open>Rounding to binary64\<close>

declare bit_length.simps [simp del]

lemma bit_length_bounds:
  "0 < n \<Longrightarrow> 2 ^ (bit_length n - 1) \<le> n \<and> n < 2 ^ bit_length n"
proof (induction n rule: bit_length.induct)
  case (1 n)
  show ?case
  proof (cases "n div 2 = 0")
    case True
    then have "n = 1" using 1(2) by (auto simp: div_eq_0_iff)
    then show ?thesis by (simp add: bit_length.simps[of "Suc 0"] bit_length.simps[of 0])
  next
    case False
    then have pos: "0 < n div 2" by simp
    have ih: "2 ^ (bit_length (n div 2) - 1) \<le> n div 2 \<and> n div 2 < 2 ^ bit_length (n div 2)"
      using 1(1) 1(2) pos by simp
    have bl: "bit_length n = Suc (bit_length (n div 2))"
      using 1(2) by (simp add: bit_length.simps[of n])
    have blpos: "0 < bit_length (n div 2)"
      using pos by (simp add: bit_length.simps[of "n div 2"])
    then obtain j where j: "bit_length (n div 2) = Suc j" by (cases "bit_length (n div 2)") auto
    have lo: "2 * 2 ^ j \<le> n" using ih j by (simp) linarith
    have hi: "n < 2 * 2 ^ Suc j" using ih j by simp linarith
    show ?thesis using lo hi by (simp add: bl j)
  qed
qed

lemma pow2_less_imp: "(2::rat) powi a < 2 powi b \<Longrightarrow> a < b"
proof (rule ccontr)
  assume l: "(2::rat) powi a < 2 powi b" and "\<not> a < b"
  then have "b \<le> a" by simp
  then have "(2::rat) powi b \<le> 2 powi a" by (intro power_int_increasing) simp_all
  then show False using l by simp
qed

text \<open>The binary exponent is not above the number: the bound that exact rounding needs.\<close>

lemma binade_le:
  assumes "x \<noteq> 0"
  shows "2 powi (binade x) \<le> \<bar>x\<bar>"
proof -
  obtain a b where q: "quotient_of \<bar>x\<bar> = (a, b)" by (cases "quotient_of \<bar>x\<bar>")
  have bpos: "0 < b" using q by (rule quotient_of_denom_pos)
  have xq: "\<bar>x\<bar> = of_int a / of_int b" using q by (rule quotient_of_div)
  have "0 < \<bar>x\<bar>" using assms by simp
  then have apos: "0 < a" using xq bpos by (simp add: zero_less_divide_iff)
  define la where "la = bit_length (nat a)"
  define lb where "lb = bit_length (nat b)"
  have ba: "2 ^ (la - 1) \<le> nat a" and "nat a < 2 ^ la"
    using bit_length_bounds[of "nat a"] apos by (simp_all add: la_def)
  have bb: "nat b < 2 ^ lb"
    using bit_length_bounds[of "nat b"] bpos by (simp add: lb_def)
  have lapos: "0 < la"
    using apos by (simp add: la_def bit_length.simps[of "nat a"])
  have A: "(2::rat) ^ (la - 1) \<le> of_int a"
  proof -
    have "int (2 ^ (la - 1)) \<le> int (nat a)" using ba by (simp only: of_nat_le_iff)
    then have "(2::int) ^ (la - 1) \<le> a" using apos by simp
    then have "(of_int ((2::int) ^ (la - 1)) :: rat) \<le> of_int a" by (simp only: of_int_le_iff)
    then show ?thesis by simp
  qed
  have B: "(of_int b :: rat) \<le> 2 ^ lb"
  proof -
    have "int (nat b) < int (2 ^ lb)" using bb by (simp only: of_nat_less_iff)
    then have "b < (2::int) ^ lb" using bpos by simp
    then have "(of_int b :: rat) < of_int ((2::int) ^ lb)" by (simp only: of_int_less_iff)
    then show ?thesis by simp
  qed
  have bq: "(0::rat) < of_int b" using bpos by simp
  have "(2::rat) ^ (la - 1) / 2 ^ lb \<le> of_int a / 2 ^ lb"
    using A by (simp add: divide_right_mono)
  also have "\<dots> \<le> of_int a / of_int b"
    using B bq apos by (intro divide_left_mono) (simp_all)
  finally have lower: "(2::rat) ^ (la - 1) / 2 ^ lb \<le> \<bar>x\<bar>" by (simp add: xq)
  have e: "(2::rat) ^ (la - 1) / 2 ^ lb = 2 powi (int la - int lb - 1)"
  proof -
    have "(2::rat) powi (int la - 1 - int lb) = 2 powi (int la - 1) / 2 powi (int lb)"
      by (simp add: power_int_diff)
    moreover have "(2::rat) powi (int la - 1) = 2 ^ (la - 1)"
      using lapos by (simp add: power_int_def nat_diff_distrib')
    moreover have "(2::rat) powi (int lb) = 2 ^ lb" by simp
    ultimately show ?thesis by (simp add: algebra_simps)
  qed
  have low: "2 powi (int la - int lb - 1) \<le> \<bar>x\<bar>" using lower e by simp
  show ?thesis
    using low by (simp add: binade_def q la_def lb_def Let_def)
qed

text \<open>A number with a mantissa of at most 53 bits and an exponent in range is not changed.\<close>

lemma round_binary64_exact:
  assumes "\<bar>m\<bar> < 2 ^ 53" and "- 1074 \<le> k"
  shows "round_binary64 (of_int m * 2 powi k) = of_int m * 2 powi k"
proof (cases "m = 0")
  case True
  then show ?thesis by (simp add: round_binary64_def)
next
  case False
  define x :: rat where "x = of_int m * 2 powi k"
  have x0: "x \<noteq> 0" using False by (simp add: x_def)
  have ax: "\<bar>x\<bar> = of_int \<bar>m\<bar> * 2 powi k" by (simp add: x_def abs_mult)
  have "(of_int \<bar>m\<bar> :: rat) < of_int (2 ^ 53)" using assms(1) by (simp only: of_int_less_iff)
  then have "(of_int \<bar>m\<bar> :: rat) < 2 powi 53" by simp
  then have "\<bar>x\<bar> < 2 powi 53 * 2 powi k" unfolding ax by (intro mult_strict_right_mono) simp_all
  then have up: "\<bar>x\<bar> < 2 powi (53 + k)" by (simp add: power_int_add)
  have "2 powi (binade x) < (2::rat) powi (53 + k)" using binade_le[OF x0] up by linarith
  then have "binade x < 53 + k" by (rule pow2_less_imp)
  define q where "q = max (binade x - 52) (- 1074)"
  have qk: "q \<le> k" using \<open>binade x < 53 + k\<close> assms(2) by (simp add: q_def)
  have "x / 2 powi q = of_int m * 2 powi (k - q)" by (simp add: x_def power_int_diff)
  also have "\<dots> = of_int m * 2 ^ nat (k - q)" using qk by (simp add: power_int_def)
  also have "\<dots> = of_int (m * 2 ^ nat (k - q))" by simp
  finally have s: "x / 2 powi q = of_int (m * 2 ^ nat (k - q))" .
  have "round_binary64 x = of_int (py_round (x / 2 powi q)) * 2 powi q"
    using x0 by (simp add: round_binary64_def q_def Let_def)
  also have "\<dots> = x / 2 powi q * 2 powi q" unfolding s py_round_int ..
  also have "\<dots> = x" by simp
  finally show ?thesis by (simp add: x_def)
qed

lemma round_binary64_nonpos: "x \<le> 0 \<Longrightarrow> round_binary64 x \<le> 0"
proof (cases "x = 0")
  case True
  then show ?thesis by (simp add: round_binary64_def)
next
  case False
  assume "x \<le> 0"
  define q where "q = max (binade x - 52) (- 1074)"
  have "x / 2 powi q \<le> 0" using \<open>x \<le> 0\<close> by (simp add: divide_le_0_iff)
  then have "py_round (x / 2 powi q) \<le> 0" using py_round_le[of "x / 2 powi q" 0] by simp
  then have "(of_int (py_round (x / 2 powi q)) :: rat) * 2 powi q \<le> 0"
    by (simp add: mult_le_0_iff)
  then show ?thesis using False by (simp add: round_binary64_def q_def Let_def)
qed

text \<open>Rounding does not cross a natural number below \<open>2 ^ 53\<close>.\<close>

lemma round_binary64_le_int:
  assumes "0 \<le> n" and "n < 2 ^ 53" and "x \<le> of_int n"
  shows "round_binary64 x \<le> of_int n"
proof (cases "x \<le> 0")
  case True
  then have "round_binary64 x \<le> 0" by (rule round_binary64_nonpos)
  then show ?thesis using assms(1) by (meson of_int_0_le_iff order_trans)
next
  case False
  then have xpos: "0 < x" by simp
  then have x0: "x \<noteq> 0" by simp
  have "(of_int n :: rat) < of_int (2 ^ 53)" using assms(2) by (simp only: of_int_less_iff)
  then have "\<bar>x\<bar> < 2 powi 53" using assms(3) xpos by simp
  then have "2 powi (binade x) < (2::rat) powi 53" using binade_le[OF x0] by linarith
  then have b: "binade x < 53" by (rule pow2_less_imp)
  define q where "q = max (binade x - 52) (- 1074)"
  have q0: "q \<le> 0" using b by (simp add: q_def)
  have "x / 2 powi q \<le> of_int n / 2 powi q" using assms(3) by (simp add: divide_right_mono)
  also have "of_int n / 2 powi q = (of_int n :: rat) * 2 powi (- q)" by (simp add: power_int_minus field_simps)
  also have "\<dots> = of_int n * 2 ^ nat (- q)" using q0 by (simp add: power_int_def)
  also have "\<dots> = of_int (n * 2 ^ nat (- q))" by simp
  finally have "py_round (x / 2 powi q) \<le> n * 2 ^ nat (- q)" by (rule py_round_le)
  then have "(of_int (py_round (x / 2 powi q)) :: rat) \<le> of_int (n * 2 ^ nat (- q))"
    by (simp only: of_int_le_iff)
  then have "(of_int (py_round (x / 2 powi q)) :: rat) * 2 powi q \<le> of_int (n * 2 ^ nat (- q)) * 2 powi q"
    by (intro mult_right_mono) simp_all
  also have "(of_int (n * 2 ^ nat (- q)) :: rat) * 2 powi q = of_int n * (2 powi (- q) * 2 powi q)"
    using q0 by (simp add: power_int_def)
  also have "\<dots> = of_int n" by (simp add: power_int_minus)
  finally show ?thesis using x0 by (simp add: round_binary64_def q_def Let_def)
qed

lemma round_binary64_int: "\<bar>n\<bar> < 2 ^ 53 \<Longrightarrow> round_binary64 (of_int n) = of_int n"
  using round_binary64_exact[of n 0] by simp

lemma round_binary64_half:
  assumes "\<bar>2 * n + 1\<bar> < 2 ^ 53"
  shows "round_binary64 (of_int n + 1 / 2) = of_int n + 1 / 2"
proof -
  have e: "(of_int (2 * n + 1) :: rat) * 2 powi (- 1) = of_int n + 1 / 2"
    by (simp add: power_int_minus field_simps)
  have "round_binary64 (of_int (2 * n + 1) * 2 powi (- 1)) = of_int (2 * n + 1) * 2 powi (- 1)"
    by (rule round_binary64_exact[OF assms]) simp
  then show ?thesis by (simp only: e)
qed

lemma float_overflow_small: "\<bar>r\<bar> < 2 ^ 53 \<Longrightarrow> \<not> float_overflow r"
proof -
  assume a: "\<bar>r\<bar> < 2 ^ 53"
  have "(2::rat) ^ 53 \<le> 2 ^ 1024" by (intro power_increasing) simp_all
  then show ?thesis using a by (simp add: float_overflow_def)
qed

subsection \<open>The rounded product\<close>

lemma round_product_ok:
  "\<not> product_overflows ts p \<Longrightarrow>
   round_product p ts = Inr (py_round (round_binary64 (p * round_binary64 (of_int ts))))"
  by (simp add: round_product_def product_overflows_def Let_def)

lemma round_product_overflow:
  "product_overflows ts p \<Longrightarrow> round_product p ts = Inl OverflowError"
  by (auto simp: round_product_def product_overflows_def Let_def)

lemma py_range_count:
  "py_range (py_round (round_binary64 (p * round_binary64 (of_int ts)))) = [0 ..< job_count ts p]"
  by (simp add: py_range_def job_count_def)

text \<open>Products that are whole numbers or halves, for the concrete inputs.\<close>

lemma count_int:
  assumes "\<bar>ts\<bar> < 2 ^ 53" and "\<bar>n\<bar> < 2 ^ 53" and "p * of_int ts = of_int n"
  shows "\<not> product_overflows ts p" and "job_count ts p = nat n"
proof -
  have t: "round_binary64 (of_int ts) = of_int ts" using assms(1) by (rule round_binary64_int)
  have r: "round_binary64 (p * of_int ts) = of_int n"
    unfolding assms(3) using assms(2) by (rule round_binary64_int)
  have "(of_int \<bar>ts\<bar> :: rat) < of_int (2 ^ 53)" using assms(1) by (simp only: of_int_less_iff)
  then have o1: "\<not> float_overflow (of_int ts)" by (intro float_overflow_small) simp
  have "(of_int \<bar>n\<bar> :: rat) < of_int (2 ^ 53)" using assms(2) by (simp only: of_int_less_iff)
  then have o2: "\<not> float_overflow (of_int n)" by (intro float_overflow_small) simp
  show "\<not> product_overflows ts p" using o1 o2 by (simp add: product_overflows_def t r)
  show "job_count ts p = nat n" by (simp add: job_count_def t r py_round_int)
qed

lemma count_half:
  assumes "\<bar>ts\<bar> < 2 ^ 53" and "0 \<le> n" and "n < 2 ^ 51" and "p * of_int ts = of_int n + 1 / 2"
  shows "\<not> product_overflows ts p"
    and "job_count ts p = nat (if even n then n else n + 1)"
proof -
  have m: "\<bar>2 * n + 1\<bar> < 2 ^ 53" using assms(2,3) by simp
  have t: "round_binary64 (of_int ts) = of_int ts" using assms(1) by (rule round_binary64_int)
  have r: "round_binary64 (p * of_int ts) = of_int n + 1 / 2"
    unfolding assms(4) using m by (rule round_binary64_half)
  have "(of_int \<bar>ts\<bar> :: rat) < of_int (2 ^ 53)" using assms(1) by (simp only: of_int_less_iff)
  then have o1: "\<not> float_overflow (of_int ts)" by (intro float_overflow_small) simp
  have "(of_int n :: rat) < of_int (2 ^ 51)" using assms(3) by (simp only: of_int_less_iff)
  then have "(of_int n :: rat) + 1 / 2 < 2 ^ 53" by simp
  moreover have "(0::rat) \<le> of_int n + 1 / 2" using assms(2) by simp
  ultimately have o2: "\<not> float_overflow (of_int n + 1 / 2)" by (intro float_overflow_small) simp
  show "\<not> product_overflows ts p" using o1 o2 by (simp add: product_overflows_def t r)
  show "job_count ts p = nat (if even n then n else n + 1)"
    by (simp only: job_count_def t r py_round_half)
qed

text \<open>A weight of at most 1 gives at most \<^verbatim>\<open>test_size\<close> jobs, for a \<^verbatim>\<open>test_size\<close> below \<open>2 ^ 53\<close>.\<close>

lemma job_count_le:
  assumes "0 \<le> ts" and "ts < 2 ^ 53" and "p \<le> 1"
  shows "job_count ts p \<le> nat ts"
proof -
  have t: "round_binary64 (of_int ts) = of_int ts" using assms(1,2) by (intro round_binary64_int) simp
  have "p * of_int ts \<le> 1 * of_int ts" using assms(1,3) by (intro mult_right_mono) simp_all
  then have "round_binary64 (p * of_int ts) \<le> of_int ts"
    using round_binary64_le_int[OF assms(1,2), of "p * of_int ts"] by simp
  then have "py_round (round_binary64 (p * of_int ts)) \<le> ts" by (rule py_round_le)
  then show ?thesis by (simp add: job_count_def t)
qed

subsection \<open>Rounding within a binade\<close>

lemma py_round_near: "\<bar>x - of_int n\<bar> < 1 / 2 \<Longrightarrow> py_round x = n"
proof -
  assume a: "\<bar>x - of_int n\<bar> < 1 / 2"
  have l: "of_int n - 1 / 2 < x" and u: "x < of_int n + 1 / 2" using a by linarith+
  show ?thesis
  proof (cases "of_int n \<le> x")
    case True
    have f: "\<lfloor>x\<rfloor> = n" using True u by (intro floor_unique) linarith+
    have d: "x - of_int n < 1 / 2" using u by linarith
    show ?thesis using d by (simp add: py_round_def Let_def f)
  next
    case False
    have m: "(of_int (n - 1) :: rat) = of_int n - 1" by simp
    have f1: "of_int (n - 1) \<le> x" unfolding m using l by linarith
    have f2: "x < of_int (n - 1) + 1" unfolding m using False by linarith
    have f: "\<lfloor>x\<rfloor> = n - 1" using f1 f2 by (rule floor_unique)
    have d: "1 / 2 < x - of_int (n - 1)" unfolding m using l by linarith
    then have nd: "\<not> x - of_int (n - 1) < 1 / 2" by linarith
    show ?thesis using d nd by (simp add: py_round_def Let_def f)
  qed
qed

text \<open>The binary exponent is the one of the binade that holds the number.\<close>

lemma binade_less:
  assumes "x \<noteq> 0"
  shows "\<bar>x\<bar> < 2 powi (binade x + 1)"
proof -
  obtain a b where q: "quotient_of \<bar>x\<bar> = (a, b)" by (cases "quotient_of \<bar>x\<bar>")
  have bpos: "0 < b" using q by (rule quotient_of_denom_pos)
  have xq: "\<bar>x\<bar> = of_int a / of_int b" using q by (rule quotient_of_div)
  have "0 < \<bar>x\<bar>" using assms by simp
  then have apos: "0 < a" using xq bpos by (simp add: zero_less_divide_iff)
  define la where "la = bit_length (nat a)"
  define lb where "lb = bit_length (nat b)"
  have ba: "nat a < 2 ^ la"
    using bit_length_bounds[of "nat a"] apos by (simp add: la_def)
  have bb: "2 ^ (lb - 1) \<le> nat b"
    using bit_length_bounds[of "nat b"] bpos by (simp add: lb_def)
  have lbpos: "0 < lb"
    using bpos by (simp add: lb_def bit_length.simps[of "nat b"])
  have A: "(of_int a :: rat) < 2 ^ la"
  proof -
    have "int (nat a) < int (2 ^ la)" using ba by (simp only: of_nat_less_iff)
    then have "a < (2::int) ^ la" using apos by simp
    then have "(of_int a :: rat) < of_int ((2::int) ^ la)" by (simp only: of_int_less_iff)
    then show ?thesis by simp
  qed
  have B: "(2::rat) ^ (lb - 1) \<le> of_int b"
  proof -
    have "int (2 ^ (lb - 1)) \<le> int (nat b)" using bb by (simp only: of_nat_le_iff)
    then have "(2::int) ^ (lb - 1) \<le> b" using bpos by simp
    then have "(of_int ((2::int) ^ (lb - 1)) :: rat) \<le> of_int b" by (simp only: of_int_le_iff)
    then show ?thesis by simp
  qed
  have bq: "(0::rat) < of_int b" using bpos by simp
  have "of_int a / of_int b < (2::rat) ^ la / of_int b"
    using A bq by (simp add: divide_strict_right_mono)
  also have "\<dots> \<le> 2 ^ la / 2 ^ (lb - 1)"
    using B bq by (intro divide_left_mono) (simp_all add: zero_less_mult_iff)
  finally have upper: "\<bar>x\<bar> < 2 ^ la / 2 ^ (lb - 1)" by (simp add: xq)
  have e: "(2::rat) ^ la / 2 ^ (lb - 1) = 2 powi (int la - int lb + 1)"
  proof -
    have "(2::rat) powi (int la - (int lb - 1)) = 2 powi (int la) / 2 powi (int lb - 1)"
      by (simp add: power_int_diff)
    moreover have "(2::rat) powi (int lb - 1) = 2 ^ (lb - 1)"
      using lbpos by (simp add: power_int_def nat_diff_distrib')
    moreover have "(2::rat) powi (int la) = 2 ^ la" by simp
    ultimately show ?thesis by (simp add: algebra_simps)
  qed
  have up: "\<bar>x\<bar> < 2 powi (int la - int lb + 1)" using upper e by simp
  show ?thesis
  proof (cases "2 powi (int la - int lb) \<le> \<bar>x\<bar>")
    case True
    then show ?thesis using up by (simp add: binade_def q la_def lb_def Let_def)
  next
    case False
    then show ?thesis by (simp add: binade_def q la_def lb_def Let_def)
  qed
qed

lemma binade_eq:
  assumes "2 powi e \<le> \<bar>x\<bar>" and "\<bar>x\<bar> < 2 powi (e + 1)"
  shows "binade x = e"
proof -
  have x0: "x \<noteq> 0"
  proof
    assume "x = 0"
    then have "2 powi e \<le> (0::rat)" using assms(1) by simp
    moreover have "(0::rat) < 2 powi e" by simp
    ultimately show False by linarith
  qed
  have "(2::rat) powi e < 2 powi (binade x + 1)" using assms(1) binade_less[OF x0] by linarith
  then have "e < binade x + 1" by (rule pow2_less_imp)
  moreover have "(2::rat) powi (binade x) < 2 powi (e + 1)" using assms(2) binade_le[OF x0] by linarith
  then have "binade x < e + 1" by (rule pow2_less_imp)
  ultimately show ?thesis by simp
qed

text \<open>Rounding a number of a normal binade to 53 significant bits.\<close>

lemma round_binary64_normal:
  assumes "2 powi e \<le> \<bar>x\<bar>" and "\<bar>x\<bar> < 2 powi (e + 1)" and "- 1022 \<le> e"
    and "py_round (x / 2 powi (e - 52)) = n"
  shows "round_binary64 x = of_int n * 2 powi (e - 52)"
proof -
  have x0: "x \<noteq> 0"
  proof
    assume "x = 0"
    then have "2 powi e \<le> (0::rat)" using assms(1) by simp
    moreover have "(0::rat) < 2 powi e" by simp
    ultimately show False by linarith
  qed
  have b: "binade x = e" using assms(1,2) by (rule binade_eq)
  have q: "max (binade x - 52) (- 1074) = e - 52" using assms(3) by (simp add: b)
  show ?thesis using x0 by (simp add: round_binary64_def q Let_def assms(4))
qed

text \<open>
  Weights whose product with \<^verbatim>\<open>test_size\<close> is not a binary64 number: 0.3 and 0.7 at
  \<^verbatim>\<open>test_size = 5\<close>, where the products round to 1.5 and 3.5 and the job counts are 2
  and 4, and 1.0004955401387512 at \<^verbatim>\<open>test_size = 1009\<close>, where the product rounds to
  1009.5 and the job count is 1010.
\<close>

lemma count_three_tenths:
  "\<not> product_overflows 5 (5404319552844595 / 18014398509481984)"
  "job_count 5 (5404319552844595 / 18014398509481984) = 2"
proof -
  have t: "round_binary64 (of_int 5) = of_int 5" by (rule round_binary64_int) simp
  have p: "py_round (5404319552844595 / 18014398509481984 * of_int 5 / 2 powi (0 - 52))
      = 6755399441055744"
    by (rule py_round_near) (simp add: power_int_minus)
  have r: "round_binary64 (5404319552844595 / 18014398509481984 * of_int 5)
      = of_int 6755399441055744 * 2 powi (0 - 52)"
    by (rule round_binary64_normal[OF _ _ _ p]) simp_all
  have v: "(of_int 6755399441055744 :: rat) * 2 powi (0 - 52) = of_int 1 + 1 / 2"
    by (simp add: power_int_minus)
  have o1: "\<not> float_overflow (of_int 5)" by (rule float_overflow_small) simp
  have o2: "\<not> float_overflow (of_int 1 + 1 / 2)" by (rule float_overflow_small) simp
  show "\<not> product_overflows 5 (5404319552844595 / 18014398509481984)"
    using o1 o2 by (simp only: product_overflows_def t r v) simp
  show "job_count 5 (5404319552844595 / 18014398509481984) = 2"
    by (simp only: job_count_def t r v py_round_half) simp
qed

lemma count_seven_tenths:
  "\<not> product_overflows 5 (3152519739159347 / 4503599627370496)"
  "job_count 5 (3152519739159347 / 4503599627370496) = 4"
proof -
  have t: "round_binary64 (of_int 5) = of_int 5" by (rule round_binary64_int) simp
  have h: "(3152519739159347 / 4503599627370496 * of_int 5 / 2 powi (1 - 52) :: rat)
      = of_int 7881299347898367 + 1 / 2"
    by (simp add: power_int_minus)
  have p: "py_round (3152519739159347 / 4503599627370496 * of_int 5 / 2 powi (1 - 52))
      = 7881299347898368"
    by (simp only: h py_round_half) simp
  have r: "round_binary64 (3152519739159347 / 4503599627370496 * of_int 5)
      = of_int 7881299347898368 * 2 powi (1 - 52)"
    by (rule round_binary64_normal[OF _ _ _ p]) simp_all
  have v: "(of_int 7881299347898368 :: rat) * 2 powi (1 - 52) = of_int 3 + 1 / 2"
    by (simp add: power_int_minus)
  have o1: "\<not> float_overflow (of_int 5)" by (rule float_overflow_small) simp
  have o2: "\<not> float_overflow (of_int 3 + 1 / 2)" by (rule float_overflow_small) simp
  show "\<not> product_overflows 5 (3152519739159347 / 4503599627370496)"
    using o1 o2 by (simp only: product_overflows_def t r v) simp
  show "job_count 5 (3152519739159347 / 4503599627370496) = 4"
    by (simp only: job_count_def t r v py_round_half) simp
qed

lemma count_above_one:
  "\<not> product_overflows 1009 (4505831341754723 / 4503599627370496)"
  "job_count 1009 (4505831341754723 / 4503599627370496) = 1010"
proof -
  have t: "round_binary64 (of_int 1009) = of_int 1009" by (rule round_binary64_int) simp
  have p: "py_round (4505831341754723 / 4503599627370496 * of_int 1009 / 2 powi (9 - 52))
      = 8879655905918976"
    by (rule py_round_near) (simp add: power_int_minus)
  have r: "round_binary64 (4505831341754723 / 4503599627370496 * of_int 1009)
      = of_int 8879655905918976 * 2 powi (9 - 52)"
    by (rule round_binary64_normal[OF _ _ _ p]) simp_all
  have v: "(of_int 8879655905918976 :: rat) * 2 powi (9 - 52) = of_int 1009 + 1 / 2"
    by (simp add: power_int_minus)
  have o1: "\<not> float_overflow (of_int 1009)" by (rule float_overflow_small) simp
  have o2: "\<not> float_overflow (of_int 1009 + 1 / 2)" by (rule float_overflow_small) simp
  show "\<not> product_overflows 1009 (4505831341754723 / 4503599627370496)"
    using o1 o2 by (simp only: product_overflows_def t r v) simp
  show "job_count 1009 (4505831341754723 / 4503599627370496) = 1010"
    by (simp only: job_count_def t r v py_round_half) simp
qed

subsection \<open>The loops that submit jobs\<close>

lemma submit_jobs_ok:
  "\<forall>i\<in>set is. i < length cn \<Longrightarrow>
   submit_jobs cn k cls is (ex, t) =
     (None, ex\<lparr>ex_jobs := ex_jobs ex @ map (main_job k cls) is\<rparr>, t + length is)"
  by (induction "is" arbitrary: ex t) (simp_all add: submit_def main_job_def)

lemma submit_jobs_err:
  "\<not> (\<forall>i\<in>set is. i < length cn) \<Longrightarrow> fst (submit_jobs cn k cls is (ex, t)) = Some IndexError"
  by (induction "is" arbitrary: ex t) auto

lemma submit_jobs_seeds:
  "\<forall>j\<in>set (ex_jobs ex). job_seed j < length cn \<Longrightarrow>
   \<forall>j\<in>set (ex_jobs (fst (snd (submit_jobs cn k cls is (ex, t))))). job_seed j < length cn"
proof (induction "is" arbitrary: ex t)
  case Nil
  then show ?case by simp
next
  case (Cons i rest)
  show ?case
  proof (cases "i < length cn")
    case True
    define ex1 where "ex1 = submit ex k i (cls @ ''-'' @ str_nat i)"
    have "ex_jobs ex1 = ex_jobs ex @ [main_job k cls i]"
      by (simp add: ex1_def submit_def main_job_def)
    moreover have "job_seed (main_job k cls i) = i" by (simp add: main_job_def)
    ultimately have "\<forall>j\<in>set (ex_jobs ex1). job_seed j < length cn"
      using Cons.prems True by simp
    from Cons.IH[OF this, of "t + 1"] show ?thesis using True by (simp add: ex1_def)
  next
    case False
    then show ?thesis using Cons.prems by simp
  qed
qed

lemma length_main_plan: "length (main_plan k ts d) = main_total ts (map snd d)"
  by (induction k ts d rule: main_plan.induct) (simp_all add: main_total_def)

lemma partition_loop_step:
  assumes "\<not> product_overflows ts p" and "job_count ts p \<le> length cn"
  shows "partition_loop cn ts k ((e, p) # rest) (ex, t) =
           partition_loop cn ts (Suc k) rest
             (ex\<lparr>ex_jobs := ex_jobs ex @ map (main_job k (class_name e)) [0 ..< job_count ts p]\<rparr>,
              t + job_count ts p)"
proof -
  have ok: "\<forall>i\<in>set [0 ..< job_count ts p]. i < length cn" using assms(2) by simp
  show ?thesis
    by (simp add: round_product_ok[OF assms(1)] py_range_count submit_jobs_ok[OF ok])
qed

lemma partition_loop_step_overflow:
  "product_overflows ts p \<Longrightarrow>
   partition_loop cn ts k ((e, p) # rest) st = (Some OverflowError, st)"
  by (simp add: round_product_overflow)

lemma partition_loop_step_index:
  assumes "\<not> product_overflows ts p" and "\<not> job_count ts p \<le> length cn"
  shows "fst (partition_loop cn ts k ((e, p) # rest) (ex, t)) = Some IndexError"
proof -
  have "length cn \<in> set [0 ..< job_count ts p]" using assms(2) by simp
  then have bad: "\<not> (\<forall>i\<in>set [0 ..< job_count ts p]. i < length cn)" by blast
  obtain r st' where s:
    "submit_jobs cn k (class_name e) [0 ..< job_count ts p] (ex, t) = (r, st')"
    by (cases "submit_jobs cn k (class_name e) [0 ..< job_count ts p] (ex, t)")
  have "r = Some IndexError"
    using submit_jobs_err[OF bad, of k "class_name e" ex t] s by simp
  then show ?thesis by (simp add: round_product_ok[OF assms(1)] py_range_count s)
qed

lemma partition_loop_ok:
  assumes "\<forall>p\<in>set (map snd d). \<not> product_overflows ts p"
    and "\<forall>p\<in>set (map snd d). job_count ts p \<le> length cn"
  shows "partition_loop cn ts k d (ex, t) =
     (None, ex\<lparr>ex_jobs := ex_jobs ex @ main_plan k ts d\<rparr>, t + main_total ts (map snd d))"
  using assms
proof (induction d arbitrary: k ex t)
  case Nil
  then show ?case by (simp add: main_total_def)
next
  case (Cons a d)
  obtain e p where a: "a = (e, p)" by (cases a)
  have h: "\<not> product_overflows ts p" "job_count ts p \<le> length cn"
    using Cons.prems by (simp_all add: a)
  have r1: "\<forall>p\<in>set (map snd d). \<not> product_overflows ts p" using Cons.prems(1) by simp
  have r2: "\<forall>p\<in>set (map snd d). job_count ts p \<le> length cn" using Cons.prems(2) by simp
  show ?case
    unfolding a partition_loop_step[OF h]
    by (simp add: Cons.IH[OF r1 r2] main_total_def)
qed

lemma partition_loop_fails:
  assumes "\<not> ((\<forall>p\<in>set (map snd d). \<not> product_overflows ts p)
             \<and> (\<forall>p\<in>set (map snd d). job_count ts p \<le> length cn))"
  shows "fst (partition_loop cn ts k d (ex, t)) = Some IndexError
         \<or> fst (partition_loop cn ts k d (ex, t)) = Some OverflowError"
  using assms
proof (induction d arbitrary: k ex t)
  case Nil
  then show ?case by simp
next
  case (Cons a d)
  obtain e p where a: "a = (e, p)" by (cases a)
  show ?case
  proof (cases "product_overflows ts p")
    case True
    show ?thesis unfolding a partition_loop_step_overflow[OF True] by simp
  next
    case no: False
    show ?thesis
    proof (cases "job_count ts p \<le> length cn")
      case True
      have rest: "\<not> ((\<forall>p\<in>set (map snd d). \<not> product_overflows ts p)
             \<and> (\<forall>p\<in>set (map snd d). job_count ts p \<le> length cn))"
        using Cons.prems no True by (simp add: a)
      show ?thesis unfolding a partition_loop_step[OF no True] by (rule Cons.IH[OF rest])
    next
      case False
      show ?thesis unfolding a by (rule disjI1, rule partition_loop_step_index[OF no False])
    qed
  qed
qed

lemma partition_loop_index:
  assumes "\<forall>p\<in>set (map snd d). \<not> product_overflows ts p"
    and "\<not> (\<forall>p\<in>set (map snd d). job_count ts p \<le> length cn)"
  shows "fst (partition_loop cn ts k d (ex, t)) = Some IndexError"
  using assms
proof (induction d arbitrary: k ex t)
  case Nil
  then show ?case by simp
next
  case (Cons a d)
  obtain e p where a: "a = (e, p)" by (cases a)
  have no: "\<not> product_overflows ts p" using Cons.prems(1) by (simp add: a)
  have r1: "\<forall>p\<in>set (map snd d). \<not> product_overflows ts p" using Cons.prems(1) by simp
  show ?case
  proof (cases "job_count ts p \<le> length cn")
    case True
    have r2: "\<not> (\<forall>p\<in>set (map snd d). job_count ts p \<le> length cn)"
      using Cons.prems(2) True by (simp add: a)
    show ?thesis unfolding a partition_loop_step[OF no True] by (rule Cons.IH[OF r1 r2])
  next
    case False
    show ?thesis unfolding a by (rule partition_loop_step_index[OF no False])
  qed
qed

lemma partition_loop_overflow:
  assumes "\<forall>p\<in>set (map snd d). job_count ts p \<le> length cn"
    and "\<not> (\<forall>p\<in>set (map snd d). \<not> product_overflows ts p)"
  shows "fst (partition_loop cn ts k d (ex, t)) = Some OverflowError"
  using assms
proof (induction d arbitrary: k ex t)
  case Nil
  then show ?case by simp
next
  case (Cons a d)
  obtain e p where a: "a = (e, p)" by (cases a)
  have le: "job_count ts p \<le> length cn" using Cons.prems(1) by (simp add: a)
  have r1: "\<forall>p\<in>set (map snd d). job_count ts p \<le> length cn" using Cons.prems(1) by simp
  show ?case
  proof (cases "product_overflows ts p")
    case True
    show ?thesis unfolding a partition_loop_step_overflow[OF True] by simp
  next
    case False
    have r2: "\<not> (\<forall>p\<in>set (map snd d). \<not> product_overflows ts p)"
      using Cons.prems(2) False by (simp add: a)
    show ?thesis unfolding a partition_loop_step[OF False le] by (rule Cons.IH[OF r1 r2])
  qed
qed

lemma partition_loop_seeds:
  "\<forall>j\<in>set (ex_jobs ex). job_seed j < length cn \<Longrightarrow>
   \<forall>j\<in>set (ex_jobs (fst (snd (partition_loop cn ts k d (ex, t))))). job_seed j < length cn"
proof (induction d arbitrary: k ex t)
  case Nil
  then show ?case by simp
next
  case (Cons a d)
  obtain e p where a: "a = (e, p)" by (cases a)
  show ?case
  proof (cases "product_overflows ts p")
    case True
    show ?thesis using Cons.prems unfolding a partition_loop_step_overflow[OF True] by simp
  next
    case False
    obtain r ex' t' where s:
      "submit_jobs cn k (class_name e) [0 ..< job_count ts p] (ex, t) = (r, ex', t')"
      using prod_cases3 by blast
    have inv: "\<forall>j\<in>set (ex_jobs ex'). job_seed j < length cn"
      using submit_jobs_seeds[OF Cons.prems, of k "class_name e" "[0 ..< job_count ts p]" t]
      by (simp add: s)
    show ?thesis
    proof (cases r)
      case None
      then show ?thesis
        using Cons.IH[OF inv, of "Suc k" t']
        by (simp add: a round_product_ok[OF False] py_range_count s)
    next
      case (Some err)
      then show ?thesis
        using inv by (simp add: a round_product_ok[OF False] py_range_count s)
    qed
  qed
qed

lemma length_filler_plan: "length (filler_plan t picks) = length picks"
  by (induction t picks rule: filler_plan.induct) simp_all

lemma filler_loop_ok:
  "t + length picks \<le> length cn \<Longrightarrow>
   filler_loop cn picks (ex, t) =
     (None, ex\<lparr>ex_jobs := ex_jobs ex @ filler_plan t picks\<rparr>, t + length picks)"
proof (induction picks arbitrary: ex t)
  case Nil
  then show ?case by simp
next
  case (Cons a picks)
  obtain k e where a: "a = (k, e)" by (cases a)
  have "Suc t + length picks \<le> length cn" using Cons.prems by simp
  from Cons.IH[OF this] show ?case using Cons.prems by (simp add: a submit_def)
qed

lemma filler_plan_seeds:
  "j \<in> set (filler_plan t picks) \<Longrightarrow> t \<le> job_seed j \<and> job_seed j < t + length picks"
proof (induction t picks rule: filler_plan.induct)
  case (1 t)
  then show ?case by simp
next
  case (2 t k e rest)
  then show ?case by (cases "j \<in> set (filler_plan (Suc t) rest)") auto
qed

lemma main_plan_seeds:
  "j \<in> set (main_plan k ts d) \<Longrightarrow> \<exists>p\<in>set (map snd d). job_seed j < job_count ts p"
proof (induction k ts d rule: main_plan.induct)
  case (1 k ts)
  then show ?case by simp
next
  case (2 k ts e p rest)
  show ?case
  proof (cases "j \<in> set (main_plan (Suc k) ts rest)")
    case True
    then show ?thesis using 2 by auto
  next
    case False
    then have "j \<in> main_job k (class_name e) ` {0 ..< job_count ts p}" using 2(2) by simp
    then obtain i where "j = main_job k (class_name e) i" "i < job_count ts p" by auto
    then have "job_seed j < job_count ts p" by (simp add: main_job_def)
    then show ?thesis by simp
  qed
qed

subsection \<open>The binding loop and the executor\<close>

lemma init_loop_fst: "fst (init_loop self ia rc k es cs) = map (init_evolution self) es"
  by (induction es arbitrary: k cs) (simp_all add: split_def Let_def)

lemma run_jobs_length: "run_jobs re oc js = Inr rows \<Longrightarrow> length rows = length js"
proof (induction js arbitrary: rows)
  case Nil
  then show ?case by simp
next
  case (Cons j js)
  then show ?case by (auto split: outcome.splits sum.splits if_splits)
qed

lemma run_jobs_error: "run_jobs re oc js = Inl e \<Longrightarrow> re \<and> (\<exists>m. e = JobError m)"
proof (induction js)
  case Nil
  then show ?case by simp
next
  case (Cons j js)
  then show ?case by (auto split: outcome.splits sum.splits if_splits)
qed

lemma run_jobs_lenient: "run_jobs False oc js = Inr (map (\<lambda>j. case oc j of Returned r \<Rightarrow> r | Exhausted m \<Rightarrow> NaN) js)"
  by (induction js) (simp_all split: outcome.splits)

lemma run_jobs_drop_nan: "run_jobs re oc js = Inr rows \<Longrightarrow> drop_nan rows = surviving_rows oc js"
proof (induction js arbitrary: rows)
  case Nil
  then show ?case by (simp add: drop_nan_def)
next
  case (Cons j js)
  show ?case
  proof (cases "oc j")
    case (Returned r)
    then obtain rs where rs: "run_jobs re oc js = Inr rs" "rows = r # rs"
      using Cons.prems by (auto split: sum.splits)
    have "drop_nan rs = surviving_rows oc js" using Cons.IH[OF rs(1)] .
    then show ?thesis using rs(2) Returned by (cases r) (simp_all add: drop_nan_def)
  next
    case (Exhausted m)
    then obtain rs where rs: "run_jobs re oc js = Inr rs" "rows = NaN # rs"
      using Cons.prems by (auto split: sum.splits if_splits)
    have "drop_nan rs = surviving_rows oc js" using Cons.IH[OF rs(1)] .
    then show ?thesis using rs(2) Exhausted by (simp add: drop_nan_def)
  qed
qed

lemma surviving_rows_length: "length (surviving_rows oc js) \<le> length js"
  by (induction js) (auto split: outcome.splits result.splits)

lemma surviving_rows_all: "\<forall>j\<in>set js. \<not> degrades (oc j) \<Longrightarrow> length (surviving_rows oc js) = length js"
proof (induction js)
  case Nil
  then show ?case by simp
next
  case (Cons j js)
  then have "\<not> degrades (oc j)" by simp
  then obtain r where "oc j = Returned (Row r)" by (cases "oc j" rule: degrades.cases) auto
  then show ?case using Cons by simp
qed

subsection \<open>Binding\<close>

lemma init_evolution_bound: "generator_llm e \<noteq> None \<Longrightarrow> init_evolution self e = e"
  by (cases "generator_llm e") (simp_all add: init_evolution_def)

lemma init_evolution_binds: "generator_llm (init_evolution self e) \<noteq> None"
  by (simp add: init_evolution_def Let_def)

lemma init_evolution_class: "class_name (init_evolution self e) = class_name e"
  by (simp add: init_evolution_def Let_def)

subsection \<open>The phases of generate\<close>

lemma choices_ok:
  "population \<noteq> [] \<or> k = 0 \<Longrightarrow>
   choices rnd population k =
     Inr (map (\<lambda>j. population ! (rnd j mod length population)) [0 ..< k])"
  by (auto simp: choices_def)

lemma finish_under:
  assumes "int t \<le> ts" and "length cn = nat ts" and "d \<noteq> []"
  shows "fst (finish ev ts d cn ds es cs (ex, t)) =
           outcome_of_jobs (ex_raise_exceptions ex) ev
             (ex_jobs ex @ filler_plan t (filler_picks (random_index ev) (map fst d) (nat ts - t)))"
    and "submitted (snd (finish ev ts d cn ds es cs (ex, t))) =
           ex_jobs ex @ filler_plan t (filler_picks (random_index ev) (map fst d) (nat ts - t))"
proof -
  define picks where "picks = filler_picks (random_index ev) (map fst d) (nat ts - t)"
  have k: "nat (ts - int t) = nat ts - t" using assms(1) by simp
  have c: "choices (random_index ev) (zip [0 ..< length d] (map fst d)) (nat (ts - int t)) = Inr picks"
    using assms(3) by (simp add: choices_ok picks_def filler_picks_def k)
  have len: "length picks = nat ts - t" by (simp add: picks_def filler_picks_def)
  have "t + length picks \<le> length cn" using assms(1,2) len by simp
  then have f: "filler_loop cn picks (ex, t) =
      (None, ex\<lparr>ex_jobs := ex_jobs ex @ filler_plan t picks\<rparr>, t + length picks)"
    by (rule filler_loop_ok)
  show "fst (finish ev ts d cn ds es cs (ex, t)) =
           outcome_of_jobs (ex_raise_exceptions ex) ev
             (ex_jobs ex @ filler_plan t (filler_picks (random_index ev) (map fst d) (nat ts - t)))"
    unfolding picks_def[symmetric]
    using assms(1) by (simp add: finish_def Let_def c f results_def outcome_of_jobs_def split: sum.splits)
  show "submitted (snd (finish ev ts d cn ds es cs (ex, t))) =
           ex_jobs ex @ filler_plan t (filler_picks (random_index ev) (map fst d) (nat ts - t))"
    unfolding picks_def[symmetric]
    using assms(1) by (simp add: finish_def Let_def c f results_def split: sum.splits)
qed

lemma finish_over:
  assumes "\<not> int t \<le> ts"
  shows "fst (finish ev ts d cn ds es cs (ex, t)) =
           outcome_of_jobs (ex_raise_exceptions ex) ev (ex_jobs ex)"
    and "submitted (snd (finish ev ts d cn ds es cs (ex, t))) = ex_jobs ex"
  using assms by (simp_all add: finish_def Let_def results_def outcome_of_jobs_def split: sum.splits)

lemma valid_nonempty: "check_if_sum_is_close (map snd d) 1 3 \<Longrightarrow> d \<noteq> []"
  by (auto simp: check_if_sum_is_close_def)

lemma bound_distributions_snd: "map snd (bound_distributions self args) = weights args"
  by (simp add: bound_distributions_def weights_def)

lemma bound_distributions_length:
  "length (bound_distributions self args) = length (the_distributions args)"
  by (simp add: bound_distributions_def)

lemma length_seed_bundles: "nat ts \<le> length (node_draw ev) \<Longrightarrow> length (seed_bundles ev ts) = nat ts"
  by (simp add: seed_bundles_def)

lemma generate_invalid:
  "\<not> check_if_sum_is_close (weights args) 1 3 \<Longrightarrow>
   generate self ev args =
     (Inl (ValueError (sum_list (weights args))),
      \<lparr>docstore_after = self_docstore self,
       evolutions_after = map fst (the_distributions args), submitted = [], calls = []\<rparr>)"
  by (simp add: generate_def Let_def weights_def the_distributions_def)

lemma submit_and_run_no_nodes:
  assumes "\<not> (0 \<le> ts \<and> nat ts \<le> length (node_draw ev))"
  shows "fst (submit_and_run ev ts d re ds es cs) = Inl DocstoreError"
    and "submitted (snd (submit_and_run ev ts d re ds es cs)) = []"
proof -
  have g: "get_random_nodes ev ts = Inl DocstoreError"
    using assms by (simp add: get_random_nodes_def)
  show "fst (submit_and_run ev ts d re ds es cs) = Inl DocstoreError"
    by (simp add: submit_and_run_def g)
  show "submitted (snd (submit_and_run ev ts d re ds es cs)) = []"
    by (simp add: submit_and_run_def g)
qed

lemma submit_and_run_partition:
  assumes "0 \<le> ts" and "nat ts \<le> length (node_draw ev)"
    and "partition_loop (seed_bundles ev ts) ts 0 d
           (\<lparr>desc = ''Generating'', keep_progress_bar = True,
             ex_raise_exceptions = re, ex_jobs = []\<rparr>, 0) = (Some e, ex', n')"
  shows "submit_and_run ev ts d re ds es cs =
           (Inl e, \<lparr>docstore_after = ds, evolutions_after = es,
                    submitted = ex_jobs ex', calls = cs\<rparr>)"
proof -
  have g: "get_random_nodes ev ts = Inr (take (nat ts) (node_draw ev))"
    using assms(1,2) by (simp add: get_random_nodes_def)
  show ?thesis
    using assms(3) by (simp add: submit_and_run_def g Let_def seed_bundles_def)
qed

lemma submit_and_run_fails:
  assumes "0 \<le> ts" and "nat ts \<le> length (node_draw ev)"
    and "\<not> ((\<forall>p\<in>set (map snd d). \<not> product_overflows ts p)
             \<and> (\<forall>p\<in>set (map snd d). job_count ts p \<le> nat ts))"
  shows "fst (submit_and_run ev ts d re ds es cs) = Inl IndexError
         \<or> fst (submit_and_run ev ts d re ds es cs) = Inl OverflowError"
proof -
  define ex where "ex = \<lparr>desc = ''Generating'', keep_progress_bar = True,
                ex_raise_exceptions = re, ex_jobs = []\<rparr>"
  have len: "length (seed_bundles ev ts) = nat ts"
    using assms(2) by (rule length_seed_bundles)
  obtain r ex' n' where pl: "partition_loop (seed_bundles ev ts) ts 0 d (ex, 0) = (r, ex', n')"
    using prod_cases3 by blast
  have "fst (partition_loop (seed_bundles ev ts) ts 0 d (ex, 0)) = Some IndexError
      \<or> fst (partition_loop (seed_bundles ev ts) ts 0 d (ex, 0)) = Some OverflowError"
    using assms(3) by (intro partition_loop_fails) (simp add: len)
  then have "r = Some IndexError \<or> r = Some OverflowError" by (simp add: pl)
  then show ?thesis
    using submit_and_run_partition[OF assms(1,2), of d re _ ex' n' ds es cs] pl
    by (auto simp: ex_def)
qed

lemma submit_and_run_index_error:
  assumes "0 \<le> ts" and "nat ts \<le> length (node_draw ev)"
    and "\<forall>p\<in>set (map snd d). \<not> product_overflows ts p"
    and "\<not> (\<forall>p\<in>set (map snd d). job_count ts p \<le> nat ts)"
  shows "fst (submit_and_run ev ts d re ds es cs) = Inl IndexError"
proof -
  define ex where "ex = \<lparr>desc = ''Generating'', keep_progress_bar = True,
                ex_raise_exceptions = re, ex_jobs = []\<rparr>"
  have len: "length (seed_bundles ev ts) = nat ts"
    using assms(2) by (rule length_seed_bundles)
  obtain r ex' n' where pl: "partition_loop (seed_bundles ev ts) ts 0 d (ex, 0) = (r, ex', n')"
    using prod_cases3 by blast
  have "fst (partition_loop (seed_bundles ev ts) ts 0 d (ex, 0)) = Some IndexError"
    using assms(3,4) by (intro partition_loop_index) (simp_all add: len)
  then have "r = Some IndexError" by (simp add: pl)
  then show ?thesis
    using submit_and_run_partition[OF assms(1,2), of d re _ ex' n' ds es cs] pl
    by (simp add: ex_def)
qed

lemma submit_and_run_overflow:
  assumes "0 \<le> ts" and "nat ts \<le> length (node_draw ev)"
    and "\<forall>p\<in>set (map snd d). job_count ts p \<le> nat ts"
    and "\<not> (\<forall>p\<in>set (map snd d). \<not> product_overflows ts p)"
  shows "fst (submit_and_run ev ts d re ds es cs) = Inl OverflowError"
    and "\<forall>j\<in>set (submitted (snd (submit_and_run ev ts d re ds es cs))). job_seed j < nat ts"
proof -
  define ex where "ex = \<lparr>desc = ''Generating'', keep_progress_bar = True,
                ex_raise_exceptions = re, ex_jobs = []\<rparr>"
  have len: "length (seed_bundles ev ts) = nat ts"
    using assms(2) by (rule length_seed_bundles)
  obtain r ex' n' where pl: "partition_loop (seed_bundles ev ts) ts 0 d (ex, 0) = (r, ex', n')"
    using prod_cases3 by blast
  have "fst (partition_loop (seed_bundles ev ts) ts 0 d (ex, 0)) = Some OverflowError"
    using assms(3,4) by (intro partition_loop_overflow) (simp_all add: len)
  then have r: "r = Some OverflowError" by (simp add: pl)
  have e0: "\<forall>j\<in>set (ex_jobs ex). job_seed j < length (seed_bundles ev ts)"
    by (simp add: ex_def)
  have inv: "\<forall>j\<in>set (ex_jobs ex'). job_seed j < nat ts"
    using partition_loop_seeds[OF e0, of ts 0 d 0] by (simp add: pl len)
  have u: "submit_and_run ev ts d re ds es cs =
      (Inl OverflowError, \<lparr>docstore_after = ds, evolutions_after = es,
                            submitted = ex_jobs ex', calls = cs\<rparr>)"
    using submit_and_run_partition[OF assms(1,2), of d re OverflowError ex' n' ds es cs] pl r
    by (simp add: ex_def)
  show "fst (submit_and_run ev ts d re ds es cs) = Inl OverflowError" by (simp add: u)
  show "\<forall>j\<in>set (submitted (snd (submit_and_run ev ts d re ds es cs))). job_seed j < nat ts"
    using inv by (simp add: u)
qed

lemma submit_and_run_jobs:
  assumes "0 \<le> ts" and "nat ts \<le> length (node_draw ev)"
    and "\<forall>p\<in>set (map snd d). \<not> product_overflows ts p"
    and "\<forall>p\<in>set (map snd d). job_count ts p \<le> nat ts" and "d \<noteq> []"
  shows "fst (submit_and_run ev ts d re ds es cs) = outcome_of_jobs re ev (all_jobs ev ts d)"
    and "submitted (snd (submit_and_run ev ts d re ds es cs)) = all_jobs ev ts d"
proof -
  define ex where "ex = \<lparr>desc = ''Generating'', keep_progress_bar = True,
                ex_raise_exceptions = re, ex_jobs = []\<rparr>"
  define ex1 where "ex1 = ex\<lparr>ex_jobs := ex_jobs ex @ main_plan 0 ts d\<rparr>"
  define m where "m = main_total ts (map snd d)"
  have g: "get_random_nodes ev ts = Inr (take (nat ts) (node_draw ev))"
    using assms(1,2) by (simp add: get_random_nodes_def)
  have len: "length (seed_bundles ev ts) = nat ts"
    using assms(2) by (rule length_seed_bundles)
  have pl: "partition_loop (seed_bundles ev ts) ts 0 d (ex, 0) = (None, ex1, m)"
    using assms(3,4) len partition_loop_ok[of d ts "seed_bundles ev ts" 0 ex 0]
    by (simp add: ex1_def m_def)
  have unfold: "submit_and_run ev ts d re ds es cs =
      finish ev ts d (seed_bundles ev ts) ds es cs (ex1, m)"
    using pl by (simp add: submit_and_run_def g Let_def ex_def seed_bundles_def)
  have j1: "ex_jobs ex1 = main_plan 0 ts d" by (simp add: ex1_def ex_def)
  have re1: "ex_raise_exceptions ex1 = re" by (simp add: ex1_def ex_def)
  show "fst (submit_and_run ev ts d re ds es cs) = outcome_of_jobs re ev (all_jobs ev ts d)"
  proof (cases "int m \<le> ts")
    case True
    then show ?thesis
      using finish_under(1)[OF True len assms(5), of ev ds es cs ex1]
      by (simp add: unfold j1 re1 all_jobs_def m_def)
  next
    case False
    then show ?thesis
      using finish_over(1)[OF False, of ev d "seed_bundles ev ts" ds es cs ex1]
      by (simp add: unfold j1 re1 all_jobs_def m_def)
  qed
  show "submitted (snd (submit_and_run ev ts d re ds es cs)) = all_jobs ev ts d"
  proof (cases "int m \<le> ts")
    case True
    then show ?thesis
      using finish_under(2)[OF True len assms(5), of ev ds es cs ex1]
      by (simp add: unfold j1 all_jobs_def m_def)
  next
    case False
    then show ?thesis
      using finish_over(2)[OF False, of ev d "seed_bundles ev ts" ds es cs ex1]
      by (simp add: unfold j1 all_jobs_def m_def)
  qed
qed

lemma generate_valid:
  assumes "check_if_sum_is_close (weights args) 1 3"
  shows "\<exists>ds es cs. generate self ev args =
           submit_and_run ev (test_size args) (bound_distributions self args)
             (the_raise_exceptions args) ds es cs"
proof -
  define ds where "ds = set_run_config (self_docstore self) (the_run_config args)"
  define il where "il = init_loop (self\<lparr>self_docstore := ds\<rparr>)
      (case is_async args of None \<Rightarrow> True | Some b \<Rightarrow> b) (the_run_config args) 0
      (map fst (the_distributions args)) []"
  define cs where "cs = (if (case with_debugging_logs args of None \<Rightarrow> False | Some b \<Rightarrow> b)
      then snd il @ map PatchLogger debug_loggers else snd il)"
  have b: "bound_distributions self args = zip (fst il) (map snd (the_distributions args))"
    by (simp add: bound_distributions_def il_def ds_def init_loop_fst)
  have "generate self ev args =
      submit_and_run ev (test_size args) (bound_distributions self args)
        (the_raise_exceptions args) ds (fst il) cs"
    unfolding b using assms
    by (simp add: generate_def Let_def split_def weights_def the_distributions_def
        the_run_config_def the_raise_exceptions_def ds_def il_def cs_def)
  then show ?thesis by blast
qed

subsection \<open>The runs of generate\<close>

lemma generate_jobs:
  assumes "check_if_sum_is_close (weights args) 1 3"
    and "0 \<le> test_size args" and "nat (test_size args) \<le> length (node_draw ev)"
    and "\<forall>p\<in>set (weights args). \<not> product_overflows (test_size args) p"
    and "\<forall>p\<in>set (weights args). job_count (test_size args) p \<le> nat (test_size args)"
  shows "fst (generate self ev args) =
           outcome_of_jobs (the_raise_exceptions args) ev
             (all_jobs ev (test_size args) (bound_distributions self args))"
    and "submitted (snd (generate self ev args)) =
           all_jobs ev (test_size args) (bound_distributions self args)"
proof -
  obtain ds es cs where g: "generate self ev args =
      submit_and_run ev (test_size args) (bound_distributions self args)
        (the_raise_exceptions args) ds es cs"
    using generate_valid[OF assms(1)] by blast
  have "the_distributions args \<noteq> []"
    using assms(1) valid_nonempty by (simp add: weights_def)
  then have ne: "bound_distributions self args \<noteq> []"
    using bound_distributions_length[of self args] by auto
  have o: "\<forall>p\<in>set (map snd (bound_distributions self args)).
      \<not> product_overflows (test_size args) p"
    using assms(4) by (simp only: bound_distributions_snd)
  have b: "\<forall>p\<in>set (map snd (bound_distributions self args)).
      job_count (test_size args) p \<le> nat (test_size args)"
    using assms(5) by (simp only: bound_distributions_snd)
  show "fst (generate self ev args) =
           outcome_of_jobs (the_raise_exceptions args) ev
             (all_jobs ev (test_size args) (bound_distributions self args))"
    unfolding g by (rule submit_and_run_jobs(1)[OF assms(2,3) o b ne])
  show "submitted (snd (generate self ev args)) =
           all_jobs ev (test_size args) (bound_distributions self args)"
    unfolding g by (rule submit_and_run_jobs(2)[OF assms(2,3) o b ne])
qed

lemma generate_index_error:
  assumes "check_if_sum_is_close (weights args) 1 3"
    and "0 \<le> test_size args" and "nat (test_size args) \<le> length (node_draw ev)"
    and "\<forall>p\<in>set (weights args). \<not> product_overflows (test_size args) p"
    and "\<not> (\<forall>p\<in>set (weights args). job_count (test_size args) p \<le> nat (test_size args))"
  shows "fst (generate self ev args) = Inl IndexError"
proof -
  obtain ds es cs where g: "generate self ev args =
      submit_and_run ev (test_size args) (bound_distributions self args)
        (the_raise_exceptions args) ds es cs"
    using generate_valid[OF assms(1)] by blast
  have o: "\<forall>p\<in>set (map snd (bound_distributions self args)).
      \<not> product_overflows (test_size args) p"
    using assms(4) by (simp only: bound_distributions_snd)
  have b: "\<not> (\<forall>p\<in>set (map snd (bound_distributions self args)).
      job_count (test_size args) p \<le> nat (test_size args))"
    unfolding bound_distributions_snd using assms(5) .
  show ?thesis unfolding g by (rule submit_and_run_index_error[OF assms(2,3) o b])
qed

lemma generate_fails:
  assumes "check_if_sum_is_close (weights args) 1 3"
    and "0 \<le> test_size args" and "nat (test_size args) \<le> length (node_draw ev)"
    and "\<not> ((\<forall>p\<in>set (weights args). \<not> product_overflows (test_size args) p)
             \<and> (\<forall>p\<in>set (weights args). job_count (test_size args) p \<le> nat (test_size args)))"
  shows "fst (generate self ev args) = Inl IndexError
         \<or> fst (generate self ev args) = Inl OverflowError"
proof -
  obtain ds es cs where g: "generate self ev args =
      submit_and_run ev (test_size args) (bound_distributions self args)
        (the_raise_exceptions args) ds es cs"
    using generate_valid[OF assms(1)] by blast
  have b: "\<not> ((\<forall>p\<in>set (map snd (bound_distributions self args)).
                \<not> product_overflows (test_size args) p)
             \<and> (\<forall>p\<in>set (map snd (bound_distributions self args)).
                job_count (test_size args) p \<le> nat (test_size args)))"
    unfolding bound_distributions_snd using assms(4) .
  show ?thesis unfolding g by (rule submit_and_run_fails[OF assms(2,3) b])
qed

lemma generate_overflow:
  assumes "check_if_sum_is_close (weights args) 1 3"
    and "0 \<le> test_size args" and "nat (test_size args) \<le> length (node_draw ev)"
    and "\<forall>p\<in>set (weights args). job_count (test_size args) p \<le> nat (test_size args)"
    and "\<not> (\<forall>p\<in>set (weights args). \<not> product_overflows (test_size args) p)"
  shows "fst (generate self ev args) = Inl OverflowError"
    and "\<forall>j\<in>set (submitted (snd (generate self ev args))). job_seed j < nat (test_size args)"
proof -
  obtain ds es cs where g: "generate self ev args =
      submit_and_run ev (test_size args) (bound_distributions self args)
        (the_raise_exceptions args) ds es cs"
    using generate_valid[OF assms(1)] by blast
  have b: "\<forall>p\<in>set (map snd (bound_distributions self args)).
      job_count (test_size args) p \<le> nat (test_size args)"
    using assms(4) by (simp only: bound_distributions_snd)
  have o: "\<not> (\<forall>p\<in>set (map snd (bound_distributions self args)).
      \<not> product_overflows (test_size args) p)"
    unfolding bound_distributions_snd using assms(5) .
  show "fst (generate self ev args) = Inl OverflowError"
    unfolding g by (rule submit_and_run_overflow(1)[OF assms(2,3) b o])
  show "\<forall>j\<in>set (submitted (snd (generate self ev args))). job_seed j < nat (test_size args)"
    unfolding g by (rule submit_and_run_overflow(2)[OF assms(2,3) b o])
qed

lemma generate_no_nodes:
  assumes "check_if_sum_is_close (weights args) 1 3"
    and "\<not> (0 \<le> test_size args \<and> nat (test_size args) \<le> length (node_draw ev))"
  shows "fst (generate self ev args) = Inl DocstoreError"
    and "submitted (snd (generate self ev args)) = []"
proof -
  obtain ds es cs where g: "generate self ev args =
      submit_and_run ev (test_size args) (bound_distributions self args)
        (the_raise_exceptions args) ds es cs"
    using generate_valid[OF assms(1)] by blast
  show "fst (generate self ev args) = Inl DocstoreError"
    unfolding g by (rule submit_and_run_no_nodes(1)[OF assms(2)])
  show "submitted (snd (generate self ev args)) = []"
    unfolding g by (rule submit_and_run_no_nodes(2)[OF assms(2)])
qed

lemma length_all_jobs:
  "0 \<le> ts \<Longrightarrow> length (all_jobs ev ts d) = max (nat ts) (main_total ts (map snd d))"
  by (simp add: all_jobs_def length_main_plan length_filler_plan filler_picks_def)

lemma all_jobs_seeds:
  assumes "\<forall>p\<in>set (map snd d). job_count ts p \<le> nat ts" and "j \<in> set (all_jobs ev ts d)"
  shows "job_seed j < nat ts"
proof (cases "j \<in> set (main_plan 0 ts d)")
  case True
  then obtain p where "p \<in> set (map snd d)" "job_seed j < job_count ts p"
    using main_plan_seeds by blast
  then show ?thesis using assms(1) by fastforce
next
  case False
  define m where "m = main_total ts (map snd d)"
  have le: "int m \<le> ts"
    using assms(2) False by (simp add: all_jobs_def m_def split: if_splits)
  have "j \<in> set (filler_plan m (filler_picks (random_index ev) (map fst d) (nat ts - m)))"
    using assms(2) False le by (simp add: all_jobs_def m_def)
  then have "job_seed j < m + length (filler_picks (random_index ev) (map fst d) (nat ts - m))"
    using filler_plan_seeds by blast
  then show ?thesis using le by (simp add: filler_picks_def)
qed

lemma outcome_of_jobs_rows:
  "outcome_of_jobs re ev js = Inr td \<Longrightarrow>
   test_data td = surviving_rows (job_outcome ev) [0 ..< length js]"
  by (auto simp: outcome_of_jobs_def run_jobs_drop_nan split: sum.splits)

lemma outcome_of_jobs_error: "outcome_of_jobs re ev js = Inl e \<Longrightarrow> re \<and> (\<exists>m. e = JobError m)"
  using run_jobs_error[of re "job_outcome ev" "[0 ..< length js]" e]
  by (simp add: outcome_of_jobs_def split: sum.splits)

lemma generate_returns:
  assumes "fst (generate self ev args) = Inr td"
  shows "check_if_sum_is_close (weights args) 1 3"
    and "0 \<le> test_size args" and "nat (test_size args) \<le> length (node_draw ev)"
    and "\<forall>p\<in>set (weights args). \<not> product_overflows (test_size args) p"
    and "\<forall>p\<in>set (weights args). job_count (test_size args) p \<le> nat (test_size args)"
proof -
  show v: "check_if_sum_is_close (weights args) 1 3"
    using assms generate_invalid[of args self ev] by (cases "check_if_sum_is_close (weights args) 1 3") simp_all
  have n: "0 \<le> test_size args \<and> nat (test_size args) \<le> length (node_draw ev)"
    using assms generate_no_nodes(1)[OF v, of ev self]
    by (cases "0 \<le> test_size args \<and> nat (test_size args) \<le> length (node_draw ev)") simp_all
  then show t: "0 \<le> test_size args" and m: "nat (test_size args) \<le> length (node_draw ev)"
    by simp_all
  have "(\<forall>p\<in>set (weights args). \<not> product_overflows (test_size args) p)
      \<and> (\<forall>p\<in>set (weights args). job_count (test_size args) p \<le> nat (test_size args))"
  proof (rule ccontr)
    assume c: "\<not> ((\<forall>p\<in>set (weights args). \<not> product_overflows (test_size args) p)
      \<and> (\<forall>p\<in>set (weights args). job_count (test_size args) p \<le> nat (test_size args)))"
    show False using generate_fails[OF v t m c, of self] assms by auto
  qed
  then show "\<forall>p\<in>set (weights args). \<not> product_overflows (test_size args) p"
    and "\<forall>p\<in>set (weights args). job_count (test_size args) p \<le> nat (test_size args)"
    by simp_all
qed

subsection \<open>Evaluation at the concrete inputs\<close>

lemma run_jobs_all_return:
  "\<forall>j\<in>set js. oc j = Returned r \<Longrightarrow> run_jobs re oc js = Inr (map (\<lambda>j. r) js)"
  by (induction js) simp_all

lemma outcome_of_jobs_env_ok:
  "outcome_of_jobs re (env_ok n) js = Inr (rows_of (length js))"
proof -
  have "run_jobs re all_return [0 ..< length js] = Inr (map (\<lambda>j. Row row0) [0 ..< length js])"
    by (rule run_jobs_all_return) (simp add: all_return_def)
  then show ?thesis
    by (simp add: outcome_of_jobs_def env_ok_def rows_of_def drop_nan_def map_replicate_const)
qed

lemma valid_args0: "check_if_sum_is_close (weights (args0 ts d)) 1 3 = (\<bar>sum_list (map snd d) - 1\<bar> \<le> 1 / 1000)"
  by (simp add: check_if_sum_is_close_def weights_def the_distributions_def args0_def)

lemma count_half_3: "\<not> product_overflows 3 (1 / 2)" "job_count 3 (1 / 2) = 2"
  using count_half[of 3 1 "1 / 2"] by simp_all

lemma count_default:
  "\<not> product_overflows 10 (1 / 2)" "\<not> product_overflows 10 (1 / 4)"
  "job_count 10 (1 / 2) = 5" "job_count 10 (1 / 4) = 2"
  using count_int[of 10 5 "1 / 2"] count_half[of 10 2 "1 / 4"] by simp_all

lemma job_count_default: "job_count 10 (1 / 2) = 5" "job_count 10 (1 / 4) = 2"
  by (rule count_default)+

lemma weights_default: "weights (args0 ts DEFAULT_DISTRIBUTION) = [1 / 2, 1 / 4, 1 / 4]"
  by (simp add: weights_def the_distributions_def args0_def DEFAULT_DISTRIBUTION_def)

lemma default_run:
  shows "fst (generate gen0 (env_ok 10) (args0 10 DEFAULT_DISTRIBUTION)) = Inr (rows_of 10)"
    and "submitted (snd (generate gen0 (env_ok 10) (args0 10 DEFAULT_DISTRIBUTION))) =
           all_jobs (env_ok 10) 10 (bound_distributions gen0 (args0 10 DEFAULT_DISTRIBUTION))"
proof -
  let ?a = "args0 10 DEFAULT_DISTRIBUTION"
  have v: "check_if_sum_is_close (weights ?a) 1 3"
    by (simp add: valid_args0 DEFAULT_DISTRIBUTION_def)
  have ts: "test_size ?a = 10" by (simp add: args0_def)
  have b: "\<forall>p\<in>set (weights ?a). job_count (test_size ?a) p \<le> nat (test_size ?a)"
    by (simp add: weights_default ts job_count_default)
  have o: "\<forall>p\<in>set (weights ?a). \<not> product_overflows (test_size ?a) p"
    by (simp add: weights_default ts count_default)
  have n: "nat (test_size ?a) \<le> length (node_draw (env_ok 10))"
    by (simp add: ts env_ok_def)
  have len: "length (all_jobs (env_ok 10) 10 (bound_distributions gen0 ?a)) = 10"
    using bound_distributions_snd[of gen0 ?a]
    by (simp add: length_all_jobs weights_default main_total_def job_count_default)
  show "fst (generate gen0 (env_ok 10) ?a) = Inr (rows_of 10)"
    using generate_jobs(1)[OF v _ n o b, of gen0] by (simp add: ts outcome_of_jobs_env_ok len)
  show "submitted (snd (generate gen0 (env_ok 10) ?a)) =
           all_jobs (env_ok 10) 10 (bound_distributions gen0 ?a)"
    using generate_jobs(2)[OF v _ n o b, of gen0] by (simp add: ts)
qed

lemma upt_10: "[0 ..< 5] = [0, 1, 2, 3, 4]" "[0 ..< 2] = [0, Suc 0]" "[0 ..< Suc 0] = [0]"
  by (simp_all add: upt_rec)

lemma upt_shift: "[t ..< t + Suc n] = t # [Suc t ..< Suc t + n]"
proof -
  have "t < t + Suc n" by simp
  then have "[t ..< t + Suc n] = t # [Suc t ..< t + Suc n]" by (rule upt_conv_Cons)
  then show ?thesis by (simp only: add_Suc add_Suc_right)
qed

lemma filler_plan_seed: "map job_seed (filler_plan t picks) = [t ..< t + length picks]"
proof (induction t picks rule: filler_plan.induct)
  case (1 t)
  then show ?case by simp
next
  case (2 t k e rest)
  have "[t ..< t + length ((k, e) # rest)] = t # [Suc t ..< Suc t + length rest]"
    using upt_shift[of t "length rest"] by (simp only: list.size add_Suc_right add_0_right One_nat_def)
  then show ?case using 2 by (simp del: upt_Suc)
qed

lemma filler_plan_evolution: "map job_evolution (filler_plan t picks) = map fst picks"
  by (induction t picks rule: filler_plan.induct) simp_all

lemma filler_picks_fst:
  "es \<noteq> [] \<Longrightarrow> map fst (filler_picks rnd es k) = map (\<lambda>j. rnd j mod length es) [0 ..< k]"
  by (simp add: filler_picks_def)

lemma main_plan_seed:
  "map job_seed (main_plan k ts d) = concat (map (\<lambda>p. [0 ..< job_count ts p]) (map snd d))"
proof (induction k ts d rule: main_plan.induct)
  case (1 k ts)
  then show ?case by simp
next
  case (2 k ts e p rest)
  have "map job_seed (map (main_job k (class_name e)) [0 ..< job_count ts p]) = [0 ..< job_count ts p]"
    by (simp add: main_job_def o_def)
  then show ?case using 2 by simp
qed

lemma main_plan_evolution:
  "map job_evolution (main_plan k ts d) =
     concat (map (\<lambda>(i, p). replicate (job_count ts p) i) (zip [k ..< k + length d] (map snd d)))"
proof (induction k ts d rule: main_plan.induct)
  case (1 k ts)
  then show ?case by simp
next
  case (2 k ts e p rest)
  have a: "map job_evolution (map (main_job k (class_name e)) [0 ..< job_count ts p]) =
      replicate (job_count ts p) k"
    by (simp add: main_job_def o_def map_replicate_const)
  have b: "[k ..< k + length ((e, p) # rest)] = k # [Suc k ..< Suc k + length rest]"
    using upt_shift[of k "length rest"] by (simp only: list.size add_Suc_right add_0_right One_nat_def)
  show ?case unfolding b using 2 a by (simp del: upt_Suc)
qed

lemma default_seeds:
  "map job_seed (all_jobs (env_ok 10) 10 (bound_distributions gen0 (args0 10 DEFAULT_DISTRIBUTION)))
     = [0, 1, 2, 3, 4, 0, 1, 0, 1, 9]"
proof -
  have w: "map snd (bound_distributions gen0 (args0 10 DEFAULT_DISTRIBUTION)) = [1 / 2, 1 / 4, 1 / 4]"
    by (simp add: bound_distributions_snd weights_default)
  show ?thesis
    by (simp add: all_jobs_def main_plan_seed filler_plan_seed w main_total_def
        job_count_default upt_10 filler_picks_def)
qed

lemma upt_3: "[0 ..< 3] = [0, 1, 2]"
  by (simp add: upt_rec)

lemma count_overweight:
  "\<not> product_overflows 4096 (4097 / 4096)" "job_count 4096 (4097 / 4096) = 4097"
  using count_int[of 4096 4097 "4097 / 4096"] by simp_all

text \<open>The ways \<^verbatim>\<open>generate\<close> can end once the weights pass the validation.\<close>

lemma generate_valid_cases:
  assumes "check_if_sum_is_close (weights args) 1 3"
  shows "fst (generate self ev args) = Inl DocstoreError
         \<or> fst (generate self ev args) = Inl IndexError
         \<or> fst (generate self ev args) = Inl OverflowError
         \<or> fst (generate self ev args) =
             outcome_of_jobs (the_raise_exceptions args) ev (submitted (snd (generate self ev args)))"
proof (cases "0 \<le> test_size args \<and> nat (test_size args) \<le> length (node_draw ev)")
  case False
  then show ?thesis using generate_no_nodes(1)[OF assms False, of self] by simp
next
  case True
  then have t: "0 \<le> test_size args" and n: "nat (test_size args) \<le> length (node_draw ev)"
    by simp_all
  show ?thesis
  proof (cases "(\<forall>p\<in>set (weights args). \<not> product_overflows (test_size args) p)
      \<and> (\<forall>p\<in>set (weights args). job_count (test_size args) p \<le> nat (test_size args))")
    case False
    then show ?thesis using generate_fails[OF assms t n False, of self] by auto
  next
    case True
    then have o: "\<forall>p\<in>set (weights args). \<not> product_overflows (test_size args) p"
      and b: "\<forall>p\<in>set (weights args). job_count (test_size args) p \<le> nat (test_size args)"
      by simp_all
    show ?thesis using generate_jobs[OF assms t n o b, of self] by simp
  qed
qed

lemma generate_valid_error:
  assumes "check_if_sum_is_close (weights args) 1 3"
  shows "fst (generate self ev args) \<noteq> Inl (ValueError s)"
  using generate_valid_cases[OF assms, of self ev]
    outcome_of_jobs_error[of "the_raise_exceptions args" ev
      "submitted (snd (generate self ev args))" "ValueError s"]
  by auto

lemma default_submitted_length:
  "length (submitted (snd (generate gen0 (env_ok 10) (args0 10 DEFAULT_DISTRIBUTION)))) = 10"
  using bound_distributions_snd[of gen0 "args0 10 DEFAULT_DISTRIBUTION"]
  by (simp add: default_run(2) length_all_jobs weights_default main_total_def job_count_default)

lemma explicit_args_distributions:
  "distributions args = None \<Longrightarrow> weights (explicit_args args) = []"
  by (simp add: explicit_args_def weights_def the_distributions_def)

lemma count_one: "\<not> product_overflows 1 1" "job_count 1 1 = 1"
  using count_int[of 1 1 1] by simp_all

lemma generate_default_flag:
  "raise_exceptions args = None \<Longrightarrow>
   generate self ev args = generate self ev (args\<lparr>raise_exceptions := Some True\<rparr>)"
  by (simp add: generate_def Let_def)

lemma generate_raises_or_jobs:
  "(\<exists>e. fst (generate self ev args) = Inl e)
   \<or> (fst (generate self ev args) =
         outcome_of_jobs (the_raise_exceptions args) ev (submitted (snd (generate self ev args))))"
proof (cases "check_if_sum_is_close (weights args) 1 3")
  case False
  then show ?thesis by (simp add: generate_invalid)
next
  case True
  then show ?thesis using generate_valid_cases[OF True, of self ev] by auto
qed

lemma generate_error_kinds:
  assumes "fst (generate self ev args) = Inl (JobError m)"
  shows "the_raise_exceptions args"
proof (cases "check_if_sum_is_close (weights args) 1 3")
  case False
  then show ?thesis using assms by (simp add: generate_invalid)
next
  case True
  then show ?thesis
    using assms generate_valid_cases[OF True, of self ev]
      outcome_of_jobs_error[of "the_raise_exceptions args" ev
        "submitted (snd (generate self ev args))" "JobError m"]
    by auto
qed

lemma all_simple_run:
  shows "fst (generate gen0 (env_fail 1) (args0 1 all_simple)) =
           outcome_of_jobs (the_raise_exceptions (args0 1 all_simple)) (env_fail 1)
             (all_jobs (env_fail 1) 1 (bound_distributions gen0 (args0 1 all_simple)))"
    and "length (all_jobs (env_fail 1) 1 (bound_distributions gen0 (args0 1 all_simple))) = 1"
    and "submitted (snd (generate gen0 (env_fail 1) (args0 1 all_simple))) =
           all_jobs (env_fail 1) 1 (bound_distributions gen0 (args0 1 all_simple))"
proof -
  let ?a = "args0 1 all_simple"
  have v: "check_if_sum_is_close (weights ?a) 1 3"
    by (simp add: valid_args0 all_simple_def)
  have w: "weights ?a = [1]"
    by (simp add: weights_def the_distributions_def args0_def all_simple_def)
  have ts: "test_size ?a = 1" by (simp add: args0_def)
  have b: "\<forall>p\<in>set (weights ?a). job_count (test_size ?a) p \<le> nat (test_size ?a)"
    by (simp add: w ts count_one)
  have o: "\<forall>p\<in>set (weights ?a). \<not> product_overflows (test_size ?a) p"
    by (simp add: w ts count_one)
  have n: "nat (test_size ?a) \<le> length (node_draw (env_fail 1))"
    by (simp add: ts env_fail_def)
  show "fst (generate gen0 (env_fail 1) ?a) =
           outcome_of_jobs (the_raise_exceptions ?a) (env_fail 1)
             (all_jobs (env_fail 1) 1 (bound_distributions gen0 ?a))"
    using generate_jobs(1)[OF v _ n o b, of gen0] by (simp add: ts)
  show "length (all_jobs (env_fail 1) 1 (bound_distributions gen0 ?a)) = 1"
    using bound_distributions_snd[of gen0 ?a]
    by (simp add: length_all_jobs w main_total_def count_one)
  show "submitted (snd (generate gen0 (env_fail 1) ?a)) =
           all_jobs (env_fail 1) 1 (bound_distributions gen0 ?a)"
    using generate_jobs(2)[OF v _ n o b, of gen0] by (simp add: ts)
qed

lemma outcome_of_jobs_lenient_env_fail:
  "outcome_of_jobs False (env_fail n) js = Inr \<lparr>test_data = []\<rparr>"
  by (simp add: outcome_of_jobs_def run_jobs_lenient env_fail_def all_exhaust_def drop_nan_def)

lemma all_simple_lenient:
  shows "fst (generate gen0 (env_fail 1) ((args0 1 all_simple)\<lparr>raise_exceptions := Some False\<rparr>))
           = Inr \<lparr>test_data = []\<rparr>"
    and "surviving_rows (job_outcome (env_fail 1))
           [0 ..< length (submitted (snd (generate gen0 (env_fail 1)
              ((args0 1 all_simple)\<lparr>raise_exceptions := Some False\<rparr>))))] = []"
proof -
  let ?a = "(args0 1 all_simple)\<lparr>raise_exceptions := Some False\<rparr>"
  have w: "weights ?a = [1]"
    by (simp add: weights_def the_distributions_def args0_def all_simple_def)
  have v: "check_if_sum_is_close (weights ?a) 1 3"
    by (simp add: w check_if_sum_is_close_def)
  have ts: "test_size ?a = 1" by (simp add: args0_def)
  have re: "\<not> the_raise_exceptions ?a" by (simp add: the_raise_exceptions_def)
  have b: "\<forall>p\<in>set (weights ?a). job_count (test_size ?a) p \<le> nat (test_size ?a)"
    by (simp add: w ts count_one)
  have o: "\<forall>p\<in>set (weights ?a). \<not> product_overflows (test_size ?a) p"
    by (simp add: w ts count_one)
  have n: "nat (test_size ?a) \<le> length (node_draw (env_fail 1))"
    by (simp add: ts env_fail_def)
  have t: "0 \<le> test_size ?a" by (simp add: ts)
  show f: "fst (generate gen0 (env_fail 1) ?a) = Inr \<lparr>test_data = []\<rparr>"
    unfolding generate_jobs(1)[OF v t n o b, of gen0] using re
    by (simp add: outcome_of_jobs_lenient_env_fail)
  have "outcome_of_jobs (the_raise_exceptions ?a) (env_fail 1)
      (submitted (snd (generate gen0 (env_fail 1) ?a))) = Inr \<lparr>test_data = []\<rparr>"
    using re by (simp add: outcome_of_jobs_lenient_env_fail)
  then show "surviving_rows (job_outcome (env_fail 1))
           [0 ..< length (submitted (snd (generate gen0 (env_fail 1) ?a)))] = []"
    using outcome_of_jobs_rows by fastforce
qed

subsection \<open>save and adapt\<close>

lemma save_loop_all_set:
  "list_all filters_set evs \<Longrightarrow>
   save_loop cd k evs cs = (None, cs @ map (\<lambda>i. EvolutionSave i cd) [k ..< k + length evs])"
proof (induction evs arbitrary: k cs)
  case Nil
  then show ?case by simp
next
  case (Cons e evs)
  have u: "[k ..< k + length (e # evs)] = k # [Suc k ..< Suc k + length evs]"
    using upt_shift[of k "length evs"] by (simp only: list.size add_Suc_right add_0_right One_nat_def)
  have fs: "filters_set e" and rest: "list_all filters_set evs" using Cons.prems by simp_all
  have e: "node_filter e \<noteq> None" "question_filter e \<noteq> None"
      "\<not> (is_complex e \<and> evolution_filter e = None)"
    using fs by (auto simp: filters_set_def)
  show ?case unfolding u using e Cons.IH[OF rest] by (simp del: upt_Suc)
qed

lemma save_loop_unset:
  "\<not> list_all filters_set evs \<Longrightarrow>
   \<exists>m\<in>set assertion_messages.
     save_loop cd k evs cs =
       (Some (AssertionError m),
        cs @ map (\<lambda>i. EvolutionSave i cd) [k ..< k + length (takeWhile filters_set evs)])"
proof (induction evs arbitrary: k cs)
  case Nil
  then show ?case by simp
next
  case (Cons e evs)
  show ?case
  proof (cases "filters_set e")
    case True
    then have rest: "\<not> list_all filters_set evs" using Cons.prems by simp
    have e: "node_filter e \<noteq> None" "question_filter e \<noteq> None"
      "\<not> (is_complex e \<and> evolution_filter e = None)"
      using True by (auto simp: filters_set_def)
    have u: "[k ..< k + length (takeWhile filters_set (e # evs))] =
        k # [Suc k ..< Suc k + length (takeWhile filters_set evs)]"
      using upt_shift[of k "length (takeWhile filters_set evs)"] True
      by (simp only: takeWhile.simps if_True list.size add_Suc_right add_0_right One_nat_def)
    obtain m where m: "m \<in> set assertion_messages"
      "save_loop cd (Suc k) evs (cs @ [EvolutionSave k cd]) =
       (Some (AssertionError m),
        (cs @ [EvolutionSave k cd]) @ map (\<lambda>i. EvolutionSave i cd)
          [Suc k ..< Suc k + length (takeWhile filters_set evs)])"
      using Cons.IH[OF rest, of "Suc k" "cs @ [EvolutionSave k cd]"] by blast
    show ?thesis unfolding u using e m by (auto simp del: upt_Suc)
  next
    case False
    then show ?thesis by (auto simp: filters_set_def assertion_messages_def)
  qed
qed

lemma init_evolution_filters:
  "filters_set (init_evolution self e) \<longleftrightarrow> generator_llm e = None \<or> filters_set e"
  by (auto simp: init_evolution_def filters_set_def Let_def)

lemma filters_after_init:
  "(\<lambda>e. filters_set (init_evolution self e)) = (\<lambda>e. generator_llm e = None \<or> filters_set e)"
  by (rule ext) (rule init_evolution_filters)

lemma adapt_loop_ok:
  "list_all (\<lambda>e. filters_set (init_evolution self e)) evs \<Longrightarrow>
   adapt_loop self lang cd k evs cs =
     (None, map (init_evolution self) evs,
      cs @ concat (map (\<lambda>i. [EvolutionInit i None None, EvolutionAdapt i lang cd])
                     [k ..< k + length evs]))"
proof (induction evs arbitrary: k cs)
  case Nil
  then show ?case by simp
next
  case (Cons e evs)
  have u: "[k ..< k + length (e # evs)] = k # [Suc k ..< Suc k + length evs]"
    using upt_shift[of k "length evs"] by (simp only: list.size add_Suc_right add_0_right One_nat_def)
  have fs: "filters_set (init_evolution self e)" using Cons.prems by simp
  have rest: "list_all (\<lambda>e. filters_set (init_evolution self e)) evs" using Cons.prems by simp
  show ?case
    unfolding u by (simp add: fs evolution_adapt_def Cons.IH[OF rest] del: upt_Suc)
qed

lemma adapt_loop_unset:
  "\<not> list_all (\<lambda>e. filters_set (init_evolution self e)) evs \<Longrightarrow>
   \<exists>m. adapt_loop self lang cd k evs cs =
       (Some (AssertionError m),
        map (init_evolution self)
            (take (Suc (length (takeWhile (\<lambda>e. filters_set (init_evolution self e)) evs))) evs)
          @ drop (Suc (length (takeWhile (\<lambda>e. filters_set (init_evolution self e)) evs))) evs,
        cs @ concat (map (\<lambda>i. [EvolutionInit i None None, EvolutionAdapt i lang cd])
                       [k ..< k + length (takeWhile (\<lambda>e. filters_set (init_evolution self e)) evs)])
           @ [EvolutionInit
                (k + length (takeWhile (\<lambda>e. filters_set (init_evolution self e)) evs))
                None None])"
proof (induction evs arbitrary: k cs)
  case Nil
  then show ?case by simp
next
  case (Cons e evs)
  let ?P = "\<lambda>e. filters_set (init_evolution self e)"
  show ?case
  proof (cases "?P e")
    case True
    then have rest: "\<not> list_all ?P evs" using Cons.prems by simp
    have tw: "takeWhile ?P (e # evs) = e # takeWhile ?P evs" using True by simp
    have u: "[k ..< k + length (e # takeWhile ?P evs)] =
        k # [Suc k ..< Suc k + length (takeWhile ?P evs)]"
      using upt_shift[of k "length (takeWhile ?P evs)"]
      by (simp only: list.size add_Suc_right add_0_right One_nat_def)
    obtain m where m:
      "adapt_loop self lang cd (Suc k) evs
         (cs @ [EvolutionInit k None None, EvolutionAdapt k lang cd]) =
       (Some (AssertionError m),
        map (init_evolution self) (take (Suc (length (takeWhile ?P evs))) evs)
          @ drop (Suc (length (takeWhile ?P evs))) evs,
        (cs @ [EvolutionInit k None None, EvolutionAdapt k lang cd])
           @ concat (map (\<lambda>i. [EvolutionInit i None None, EvolutionAdapt i lang cd])
                       [Suc k ..< Suc k + length (takeWhile ?P evs)])
           @ [EvolutionInit (Suc k + length (takeWhile ?P evs)) None None])"
      using Cons.IH[OF rest, of "Suc k" "cs @ [EvolutionInit k None None, EvolutionAdapt k lang cd]"]
      by blast
    show ?thesis
      unfolding tw u using True m by (simp add: evolution_adapt_def del: upt_Suc)
  next
    case False
    then show ?thesis by (simp add: evolution_adapt_def)
  qed
qed

section \<open>Properties\<close>

subsection \<open>Binding of strategies\<close>

text \<open>
  C8. \<^verbatim>\<open>init_evolution\<close> skips a strategy whose generation model is bound: every field
  stays as it was. Hence a second call changes nothing after the first. After one call
  on an unbound composite strategy the evolution filter is bound.
\<close>

theorem init_evolution_idempotent:
  "(generator_llm e \<noteq> None \<longrightarrow> init_evolution self e = e)
   \<and> init_evolution self (init_evolution self e) = init_evolution self e
   \<and> (generator_llm e = None \<and> is_complex e
        \<longrightarrow> evolution_filter (init_evolution self e) \<noteq> None)"
proof (intro conjI impI)
  assume "generator_llm e \<noteq> None"
  then show "init_evolution self e = e" by (rule init_evolution_bound)
next
  show "init_evolution self (init_evolution self e) = init_evolution self e"
    by (rule init_evolution_bound) (rule init_evolution_binds)
next
  assume "generator_llm e = None \<and> is_complex e"
  then show "evolution_filter (init_evolution self e) \<noteq> None"
    by (simp add: init_evolution_def Let_def)
qed

text \<open>At a strategy with a model of its own, and at the unbound composite \<open>reasoning\<close>.\<close>

theorem init_evolution_idempotent_witness:
  "generator_llm preset \<noteq> None \<and> init_evolution gen0 preset = preset
   \<and> generator_llm reasoning = None \<and> is_complex reasoning
   \<and> evolution_filter (init_evolution gen0 reasoning) \<noteq> None
   \<and> init_evolution gen0 (init_evolution gen0 reasoning) = init_evolution gen0 reasoning"
  using init_evolution_idempotent[of preset gen0] init_evolution_idempotent[of reasoning gen0]
  by (simp add: preset_def reasoning_def unbound_def)

subsection \<open>Size of the dataset\<close>

text \<open>
  C1, as amended. Whenever \<^verbatim>\<open>generate\<close> returns a dataset, the number of submitted
  jobs is \<^verbatim>\<open>test_size\<close> when the job counts \<^verbatim>\<open>round(probability * test_size)\<close>, each
  the rounding of the binary64 product, sum to at most \<^verbatim>\<open>test_size\<close>, and that larger
  sum otherwise; the number of rows is at most the number of submitted jobs and equals
  it when no submitted job degrades to the sentinel. So the rows are at most
  \<^verbatim>\<open>test_size\<close> whenever the job counts do not overshoot.
\<close>

theorem generate_size:
  assumes "fst (generate self ev args) = Inr td"
  shows "length (submitted (snd (generate self ev args))) =
           max (nat (test_size args)) (main_total (test_size args) (weights args))
         \<and> length (test_data td) \<le> length (submitted (snd (generate self ev args)))
         \<and> ((\<forall>j < length (submitted (snd (generate self ev args))). \<not> degrades (job_outcome ev j))
              \<longrightarrow> length (test_data td) = length (submitted (snd (generate self ev args))))
         \<and> (int (main_total (test_size args) (weights args)) \<le> test_size args
              \<longrightarrow> int (length (test_data td)) \<le> test_size args)"
proof -
  note r = generate_returns[OF assms]
  define js where "js = all_jobs ev (test_size args) (bound_distributions self args)"
  have s: "submitted (snd (generate self ev args)) = js"
    unfolding js_def by (rule generate_jobs(2)[OF r])
  have "outcome_of_jobs (the_raise_exceptions args) ev js = Inr td"
    using assms generate_jobs(1)[OF r, of self] by (simp add: js_def)
  then have rows: "test_data td = surviving_rows (job_outcome ev) [0 ..< length js]"
    by (rule outcome_of_jobs_rows)
  have len: "length js = max (nat (test_size args)) (main_total (test_size args) (weights args))"
    using r(2) by (simp add: js_def length_all_jobs bound_distributions_snd)
  have le: "length (test_data td) \<le> length js"
    using surviving_rows_length[of "job_outcome ev" "[0 ..< length js]"] by (simp add: rows)
  have eq: "(\<forall>j < length js. \<not> degrades (job_outcome ev j)) \<longrightarrow> length (test_data td) = length js"
    using surviving_rows_all[of "[0 ..< length js]" "job_outcome ev"] by (simp add: rows)
  have small: "int (main_total (test_size args) (weights args)) \<le> test_size args
       \<longrightarrow> int (length (test_data td)) \<le> test_size args"
    using le len r(2) by auto
  show ?thesis using len le eq small by (simp add: s)
qed

text \<open>At the default distribution and \<^verbatim>\<open>test_size = 10\<close>, where every job returns a row.\<close>

theorem generate_size_witness:
  "fst (generate gen0 (env_ok 10) (args0 10 DEFAULT_DISTRIBUTION)) = Inr (rows_of 10)
   \<and> length (submitted (snd (generate gen0 (env_ok 10) (args0 10 DEFAULT_DISTRIBUTION)))) = 10
   \<and> length (test_data (rows_of 10)) = 10"
proof -
  have m: "main_total 10 [1 / 2, 1 / 4, 1 / 4] = 9"
    by (simp add: main_total_def job_count_default)
  have ts: "test_size (args0 10 DEFAULT_DISTRIBUTION) = 10" by (simp add: args0_def)
  show ?thesis
    using generate_size[OF default_run(1)] default_run(1)
    by (simp add: weights_default m ts rows_of_def)
qed

text \<open>
  The claim as stated fails: with two strategies of weight 0.5 and \<^verbatim>\<open>test_size = 3\<close>
  each product is the binary64 number 1.5, which rounds to 2; four jobs are submitted,
  and four rows come back.
\<close>

theorem generate_size_counterexample:
  "fst (generate gen0 (env_ok 3) (args0 3 half_half)) = Inr (rows_of 4)
   \<and> \<not> int (length (test_data (rows_of 4))) \<le> test_size (args0 3 half_half)"
proof -
  have v: "check_if_sum_is_close (weights (args0 3 half_half)) 1 3"
    by (simp add: valid_args0 half_half_def)
  have w: "weights (args0 3 half_half) = [1 / 2, 1 / 2]"
    by (simp add: weights_def the_distributions_def args0_def half_half_def)
  have ts: "test_size (args0 3 half_half) = 3" by (simp add: args0_def)
  have b: "\<forall>p\<in>set (weights (args0 3 half_half)).
      job_count (test_size (args0 3 half_half)) p \<le> nat (test_size (args0 3 half_half))"
    by (simp add: w ts count_half_3)
  have o: "\<forall>p\<in>set (weights (args0 3 half_half)).
      \<not> product_overflows (test_size (args0 3 half_half)) p"
    by (simp add: w ts count_half_3)
  have n: "nat (test_size (args0 3 half_half)) \<le> length (node_draw (env_ok 3))"
    by (simp add: ts env_ok_def)
  have len: "length (all_jobs (env_ok 3) 3 (bound_distributions gen0 (args0 3 half_half))) = 4"
    using bound_distributions_snd[of gen0 "args0 3 half_half"]
    by (simp add: length_all_jobs w main_total_def count_half_3)
  have "fst (generate gen0 (env_ok 3) (args0 3 half_half)) = Inr (rows_of 4)"
    using generate_jobs(1)[OF v _ n o b, of gen0] by (simp add: ts outcome_of_jobs_env_ok len)
  then show ?thesis by (simp add: rows_of_def args0_def)
qed

subsection \<open>The partition of the jobs\<close>

text \<open>
  C2, evaluated where the code departs from it. The claim: every job of the main pass
  gets the next unused seed bundle, so no bundle is given to two main-pass jobs. The
  main pass indexes \<^verbatim>\<open>current_nodes\<close> with the loop variable of the inner loop, which
  restarts at 0 for every strategy. At \<^verbatim>\<open>test_size = 10\<close> and the default distribution
  the three strategies read bundles 0-4, 0-1 and 0-1; only the filler job, which
  indexes with the running total, reads bundle 9, and bundles 5-8 are never used.
\<close>

theorem partition_reuses_seeds:
  "map job_seed (submitted (snd (generate gen0 (env_ok 10) (args0 10 DEFAULT_DISTRIBUTION))))
     = [0, 1, 2, 3, 4, 0, 1, 0, 1, 9]"
  by (simp only: default_run(2) default_seeds)

text \<open>
  C3. For \<^verbatim>\<open>test_size = 10\<close> and weights 0.5, 0.25, 0.25 on three strategies, the main
  pass ends without error with 9 jobs, 5 of the first strategy, 2 of the second and 2
  of the third; \<^verbatim>\<open>generate\<close> submits these and then exactly one filler job, of the
  strategy that the random draw picks, reaching 10 jobs.
\<close>

theorem generate_ten_jobs:
  assumes "distributions args = Some [(A, 1 / 2), (B, 1 / 4), (C, 1 / 4)]"
    and "test_size args = 10" and "10 \<le> length (node_draw ev)"
  shows "partition_loop (seed_bundles ev 10) 10 0 (bound_distributions self args)
           (\<lparr>desc = ''Generating'', keep_progress_bar = True,
             ex_raise_exceptions = the_raise_exceptions args, ex_jobs = []\<rparr>, 0) =
           (None,
            \<lparr>desc = ''Generating'', keep_progress_bar = True,
             ex_raise_exceptions = the_raise_exceptions args,
             ex_jobs = main_plan 0 10 (bound_distributions self args)\<rparr>, 9)
         \<and> map job_evolution (main_plan 0 10 (bound_distributions self args)) =
             [0, 0, 0, 0, 0, 1, 1, 2, 2]
         \<and> take 9 (submitted (snd (generate self ev args))) =
             main_plan 0 10 (bound_distributions self args)
         \<and> length (submitted (snd (generate self ev args))) = 10
         \<and> map job_evolution (submitted (snd (generate self ev args))) =
             [0, 0, 0, 0, 0, 1, 1, 2, 2, random_index ev 0 mod 3]"
proof -
  define bd where "bd = bound_distributions self args"
  have w: "weights args = [1 / 2, 1 / 4, 1 / 4]"
    by (simp add: weights_def the_distributions_def assms(1))
  have ws: "map snd bd = [1 / 2, 1 / 4, 1 / 4]"
    by (simp add: bd_def bound_distributions_snd w)
  have lbd: "length bd = 3"
    using bound_distributions_length[of self args] by (simp add: bd_def the_distributions_def assms(1))
  have m: "main_total 10 (map snd bd) = 9"
    by (simp add: ws main_total_def job_count_default)
  have v: "check_if_sum_is_close (weights args) 1 3"
    by (simp add: w check_if_sum_is_close_def)
  have b: "\<forall>p\<in>set (weights args). job_count (test_size args) p \<le> nat (test_size args)"
    by (simp add: w assms(2) job_count_default)
  have o: "\<forall>p\<in>set (weights args). \<not> product_overflows (test_size args) p"
    by (simp add: w assms(2) count_default)
  have o': "\<forall>p\<in>set (map snd bd). \<not> product_overflows 10 p"
    by (simp add: ws count_default)
  have n: "nat (test_size args) \<le> length (node_draw ev)"
    using assms(3) by (simp add: assms(2))
  have len: "length (seed_bundles ev 10) = nat 10"
    using assms(3) by (intro length_seed_bundles) simp
  have b': "\<forall>p\<in>set (map snd bd). job_count 10 p \<le> length (seed_bundles ev 10)"
    by (simp add: ws len job_count_default)
  have p1: "partition_loop (seed_bundles ev 10) 10 0 bd
           (\<lparr>desc = ''Generating'', keep_progress_bar = True,
             ex_raise_exceptions = the_raise_exceptions args, ex_jobs = []\<rparr>, 0) =
           (None,
            \<lparr>desc = ''Generating'', keep_progress_bar = True,
             ex_raise_exceptions = the_raise_exceptions args,
             ex_jobs = main_plan 0 10 bd\<rparr>, 9)"
    using partition_loop_ok[OF o' b', of 0 _ 0] by (simp add: m)
  have p2: "map job_evolution (main_plan 0 10 bd) = [0, 0, 0, 0, 0, 1, 1, 2, 2]"
    by (simp add: main_plan_evolution ws lbd upt_3 job_count_default numeral_eq_Suc)
  have s: "submitted (snd (generate self ev args)) = all_jobs ev 10 bd"
    using generate_jobs(2)[OF v _ n o b, of self] by (simp add: assms(2) bd_def)
  have l9: "length (main_plan 0 10 bd) = 9" by (simp add: length_main_plan m)
  have picks: "map fst (filler_picks (random_index ev) (map fst bd) (Suc 0)) = [random_index ev 0 mod 3]"
    using lbd by (simp add: filler_picks_def)
  have a: "all_jobs ev 10 bd =
      main_plan 0 10 bd @ filler_plan 9 (filler_picks (random_index ev) (map fst bd) (Suc 0))"
    by (simp add: all_jobs_def m)
  have p3: "take 9 (submitted (snd (generate self ev args))) = main_plan 0 10 bd"
    by (simp add: s a l9)
  have p4: "length (submitted (snd (generate self ev args))) = 10"
    by (simp add: s length_all_jobs m)
  have p5: "map job_evolution (submitted (snd (generate self ev args))) =
             [0, 0, 0, 0, 0, 1, 1, 2, 2, random_index ev 0 mod 3]"
    by (simp add: s a p2 filler_plan_evolution picks)
  show ?thesis using p1 p2 p3 p4 p5 by (simp add: bd_def)
qed

text \<open>At the default distribution, with a draw that picks the first strategy.\<close>

theorem generate_ten_jobs_witness:
  "distributions (args0 10 DEFAULT_DISTRIBUTION) = Some [(simple, 1 / 2), (reasoning, 1 / 4), (multi_context, 1 / 4)]
   \<and> test_size (args0 10 DEFAULT_DISTRIBUTION) = 10
   \<and> 10 \<le> length (node_draw (env_ok 10))
   \<and> length (submitted (snd (generate gen0 (env_ok 10) (args0 10 DEFAULT_DISTRIBUTION)))) = 10
   \<and> map job_evolution (submitted (snd (generate gen0 (env_ok 10) (args0 10 DEFAULT_DISTRIBUTION)))) =
       [0, 0, 0, 0, 0, 1, 1, 2, 2, 0]"
proof -
  have d: "distributions (args0 10 DEFAULT_DISTRIBUTION) =
      Some [(simple, 1 / 2), (reasoning, 1 / 4), (multi_context, 1 / 4)]"
    by (simp add: args0_def DEFAULT_DISTRIBUTION_def)
  have t: "test_size (args0 10 DEFAULT_DISTRIBUTION) = 10" by (simp add: args0_def)
  have n: "10 \<le> length (node_draw (env_ok 10))" by (simp add: env_ok_def)
  have r: "random_index (env_ok 10) 0 mod 3 = 0" by (simp add: env_ok_def first_pick_def)
  show ?thesis
    using generate_ten_jobs[OF d t n, of gen0] d t n by (simp add: r)
qed

subsection \<open>Reads of the seed bundles\<close>

text \<open>
  C4, as amended. For every distribution whose job counts
  \<^verbatim>\<open>round(probability * test_size)\<close>, each the rounding of the binary64 product, are
  at most \<^verbatim>\<open>test_size\<close> (as they are when every weight is at most 1 and
  \<^verbatim>\<open>test_size\<close> is below \<open>2 ^ 53\<close>, see \<open>job_count_le\<close>), every index used to read a
  seed bundle, in the main pass and in the filler pass, is below \<^verbatim>\<open>test_size\<close>, and
  \<^verbatim>\<open>generate\<close> raises no IndexError.
\<close>

theorem generate_seed_index:
  assumes "\<forall>p\<in>set (weights args). job_count (test_size args) p \<le> nat (test_size args)"
  shows "fst (generate self ev args) \<noteq> Inl IndexError
         \<and> (\<forall>j\<in>set (submitted (snd (generate self ev args))). job_seed j < nat (test_size args))"
proof (cases "check_if_sum_is_close (weights args) 1 3")
  case False
  then show ?thesis by (simp add: generate_invalid)
next
  case v: True
  show ?thesis
  proof (cases "0 \<le> test_size args \<and> nat (test_size args) \<le> length (node_draw ev)")
    case False
    then show ?thesis
      using generate_no_nodes[OF v False, of self] by simp
  next
    case True
    then have t: "0 \<le> test_size args" and n: "nat (test_size args) \<le> length (node_draw ev)"
      by simp_all
    show ?thesis
    proof (cases "\<forall>p\<in>set (weights args). \<not> product_overflows (test_size args) p")
      case False
      have "fst (generate self ev args) = Inl OverflowError"
        by (rule generate_overflow(1)[OF v t n assms False])
      moreover have "\<forall>j\<in>set (submitted (snd (generate self ev args))).
          job_seed j < nat (test_size args)"
        by (rule generate_overflow(2)[OF v t n assms False])
      ultimately show ?thesis by simp
    next
      case o: True
      define js where "js = all_jobs ev (test_size args) (bound_distributions self args)"
      have f: "fst (generate self ev args) = outcome_of_jobs (the_raise_exceptions args) ev js"
        unfolding js_def by (rule generate_jobs(1)[OF v t n o assms])
      have s: "submitted (snd (generate self ev args)) = js"
        unfolding js_def by (rule generate_jobs(2)[OF v t n o assms])
      have "outcome_of_jobs (the_raise_exceptions args) ev js \<noteq> Inl IndexError"
        using outcome_of_jobs_error[of "the_raise_exceptions args" ev js IndexError] by auto
      moreover have "\<forall>j\<in>set js. job_seed j < nat (test_size args)"
        unfolding js_def
        using all_jobs_seeds[of "bound_distributions self args" "test_size args" _ ev] assms
        by (simp only: bound_distributions_snd) blast
      ultimately show ?thesis by (simp add: f s)
    qed
  qed
qed

text \<open>At the default distribution and \<^verbatim>\<open>test_size = 10\<close>.\<close>

theorem generate_seed_index_witness:
  "job_count 10 (1 / 2) \<le> nat 10 \<and> job_count 10 (1 / 4) \<le> nat 10
   \<and> fst (generate gen0 (env_ok 10) (args0 10 DEFAULT_DISTRIBUTION)) \<noteq> Inl IndexError
   \<and> list_all (\<lambda>j. job_seed j < 10)
        (submitted (snd (generate gen0 (env_ok 10) (args0 10 DEFAULT_DISTRIBUTION))))"
proof -
  have t: "test_size (args0 10 DEFAULT_DISTRIBUTION) = 10" by (simp add: args0_def)
  have b: "\<forall>p\<in>set (weights (args0 10 DEFAULT_DISTRIBUTION)).
      job_count (test_size (args0 10 DEFAULT_DISTRIBUTION)) p \<le> nat (test_size (args0 10 DEFAULT_DISTRIBUTION))"
    by (simp add: weights_default t job_count_default)
  show ?thesis
    using generate_seed_index[OF b, of gen0 "env_ok 10"]
    by (simp add: t job_count_default list_all_iff)
qed

text \<open>
  The claim as stated fails: validation bounds the sum of the weights, not each weight.
  The single weight 1 + 2^-12, a binary64 number, is within the tolerance; at
  \<^verbatim>\<open>test_size = 4096\<close> the product is the binary64 number 4097, which gives 4097 jobs,
  and the main pass reads \<^verbatim>\<open>current_nodes[4096]\<close> of 4096 bundles.
\<close>

theorem generate_seed_index_counterexample:
  "check_if_sum_is_close (weights (args0 4096 overweight)) 1 3
   \<and> 0 < test_size (args0 4096 overweight)
   \<and> fst (generate gen0 (env_ok 4096) (args0 4096 overweight)) = Inl IndexError"
proof -
  have v: "check_if_sum_is_close (weights (args0 4096 overweight)) 1 3"
    by (simp add: valid_args0 overweight_def)
  have w: "weights (args0 4096 overweight) = [4097 / 4096]"
    by (simp add: weights_def the_distributions_def args0_def overweight_def)
  have t: "test_size (args0 4096 overweight) = 4096" by (simp add: args0_def)
  have n: "nat (test_size (args0 4096 overweight)) \<le> length (node_draw (env_ok 4096))"
    by (simp add: t env_ok_def)
  have b: "\<not> (\<forall>p\<in>set (weights (args0 4096 overweight)).
      job_count (test_size (args0 4096 overweight)) p \<le> nat (test_size (args0 4096 overweight)))"
    by (simp add: w t count_overweight)
  have o: "\<forall>p\<in>set (weights (args0 4096 overweight)).
      \<not> product_overflows (test_size (args0 4096 overweight)) p"
    by (simp add: w t count_overweight)
  have "fst (generate gen0 (env_ok 4096) (args0 4096 overweight)) = Inl IndexError"
    using generate_index_error[OF v _ n o b, of gen0] by (simp add: t)
  then show ?thesis using v by (simp add: t)
qed

subsection \<open>Validation of the distribution\<close>

text \<open>
  C5. \<^verbatim>\<open>generate\<close> raises the ValueError that carries the sum of the weights if and
  only if that sum differs from 1.0 by more than the tolerance of 3 decimal places.
  When it does, nothing has happened yet: no job is submitted, no strategy is bound or
  initialised (the strategies are as passed and no collaborator was called), and the
  docstore, its run config included, is as before.
\<close>

theorem generate_validation:
  "((\<exists>s. fst (generate self ev args) = Inl (ValueError s))
      \<longleftrightarrow> 1 / 1000 < \<bar>sum_list (weights args) - 1\<bar>)
   \<and> (1 / 1000 < \<bar>sum_list (weights args) - 1\<bar> \<longrightarrow>
        generate self ev args =
          (Inl (ValueError (sum_list (weights args))),
           \<lparr>docstore_after = self_docstore self,
            evolutions_after = map fst (the_distributions args),
            submitted = [], calls = []\<rparr>))"
proof (cases "check_if_sum_is_close (weights args) 1 3")
  case True
  then have "\<not> 1 / 1000 < \<bar>sum_list (weights args) - 1\<bar>"
    by (simp add: check_if_sum_is_close_def)
  then show ?thesis using generate_valid_error[OF True, of self ev] by simp
next
  case False
  then have "1 / 1000 < \<bar>sum_list (weights args) - 1\<bar>"
    by (simp add: check_if_sum_is_close_def)
  then show ?thesis using generate_invalid[OF False, of self ev] by simp
qed

text \<open>At a single weight of 0.875.\<close>

theorem generate_validation_witness:
  "1 / 1000 < \<bar>sum_list (weights (args0 10 low_sum)) - 1\<bar>
   \<and> generate gen0 (env_ok 10) (args0 10 low_sum) =
        (Inl (ValueError (7 / 8)),
         \<lparr>docstore_after = ds0, evolutions_after = [simple], submitted = [], calls = []\<rparr>)"
proof -
  have w: "weights (args0 10 low_sum) = [7 / 8]"
    by (simp add: weights_def the_distributions_def args0_def low_sum_def)
  have d: "the_distributions (args0 10 low_sum) = [(simple, 7 / 8)]"
    by (simp add: the_distributions_def args0_def low_sum_def)
  show ?thesis
    using generate_validation[of gen0 "env_ok 10" "args0 10 low_sum"]
    by (simp add: w d gen0_def)
qed

subsection \<open>The filter of empty rows\<close>

text \<open>
  C9. Dropping the sentinel rows twice gives what dropping them once gives. The dataset
  that \<^verbatim>\<open>generate\<close> returns holds exactly the rows of the raw result sequence of the
  executor that are not the sentinel, in the order of that sequence, which is the order
  of submission.
\<close>

theorem drop_nan_dataset:
  "drop_nan (drop_nan rows) = drop_nan rows
   \<and> (fst (generate self ev args) = Inr td \<longrightarrow>
        (\<exists>raw. results \<lparr>desc = ''Generating'', keep_progress_bar = True,
                         ex_raise_exceptions = the_raise_exceptions args,
                         ex_jobs = submitted (snd (generate self ev args))\<rparr> ev = Inr raw
               \<and> test_data td = filter (\<lambda>r. \<not> is_nan r) raw))"
proof (intro conjI impI)
  show "drop_nan (drop_nan rows) = drop_nan rows" by (simp add: drop_nan_def)
next
  assume a: "fst (generate self ev args) = Inr td"
  note r = generate_returns[OF a]
  define js where "js = all_jobs ev (test_size args) (bound_distributions self args)"
  have s: "submitted (snd (generate self ev args)) = js"
    unfolding js_def by (rule generate_jobs(2)[OF r])
  have o: "outcome_of_jobs (the_raise_exceptions args) ev js = Inr td"
    using a generate_jobs(1)[OF r, of self] by (simp add: js_def)
  then obtain raw where raw: "run_jobs (the_raise_exceptions args) (job_outcome ev) [0 ..< length js] = Inr raw"
    and td: "td = \<lparr>test_data = drop_nan raw\<rparr>"
    by (auto simp: outcome_of_jobs_def split: sum.splits)
  have "results \<lparr>desc = ''Generating'', keep_progress_bar = True,
                         ex_raise_exceptions = the_raise_exceptions args,
                         ex_jobs = js\<rparr> ev = Inr raw"
    using raw by (simp add: results_def)
  moreover have "test_data td = filter (\<lambda>r. \<not> is_nan r) raw"
    by (simp add: td drop_nan_def)
  ultimately show "\<exists>raw. results \<lparr>desc = ''Generating'', keep_progress_bar = True,
                         ex_raise_exceptions = the_raise_exceptions args,
                         ex_jobs = submitted (snd (generate self ev args))\<rparr> ev = Inr raw
               \<and> test_data td = filter (\<lambda>r. \<not> is_nan r) raw"
    unfolding s by blast
qed

text \<open>At the default run, and at a sequence with two sentinels.\<close>

theorem drop_nan_dataset_witness:
  "fst (generate gen0 (env_ok 10) (args0 10 DEFAULT_DISTRIBUTION)) = Inr (rows_of 10)
   \<and> drop_nan (drop_nan [NaN, Row row0, NaN]) = drop_nan [NaN, Row row0, NaN]
   \<and> drop_nan [NaN, Row row0, NaN] = [Row row0]
   \<and> test_data (rows_of 10) = drop_nan (replicate 10 (Row row0))"
  using drop_nan_dataset[of "[NaN, Row row0, NaN]" gen0 "env_ok 10" "args0 10 DEFAULT_DISTRIBUTION" "rows_of 10"]
    default_run(1)
  by (simp add: drop_nan_def rows_of_def)

subsection \<open>The document entry points without a distribution\<close>

text \<open>
  C10. Called without \<^verbatim>\<open>distributions\<close>, \<^verbatim>\<open>generate_with_langchain_docs\<close> and
  \<^verbatim>\<open>generate_with_llamaindex_docs\<close> raise the ValueError of the validation, with sum
  0 of the empty default mapping, and the documents are in the docstore by then: for a
  non-empty document sequence the docstore left behind differs from the one before.
\<close>

theorem generate_with_docs_default:
  assumes "distributions args = None"
  shows "generate_with_langchain_docs self ev docs args =
           (Inl (ValueError 0),
            \<lparr>docstore_after = add_documents (self_docstore self) (map FromLangchain docs),
             evolutions_after = [], submitted = [], calls = []\<rparr>)
         \<and> generate_with_llamaindex_docs self ev docs args =
           (Inl (ValueError 0),
            \<lparr>docstore_after = add_documents (self_docstore self) (map FromLlamaindex docs),
             evolutions_after = [], submitted = [], calls = []\<rparr>)
         \<and> (docs \<noteq> [] \<longrightarrow>
              add_documents (self_docstore self) (map FromLangchain docs) \<noteq> self_docstore self
              \<and> add_documents (self_docstore self) (map FromLlamaindex docs) \<noteq> self_docstore self)"
proof -
  have w: "weights (explicit_args args) = []"
    using assms by (rule explicit_args_distributions)
  have d: "the_distributions (explicit_args args) = []"
    using assms by (simp add: explicit_args_def the_distributions_def)
  have inv: "\<not> check_if_sum_is_close (weights (explicit_args args)) 1 3"
    by (simp add: w check_if_sum_is_close_def)
  have a: "generate_with_langchain_docs self ev docs args =
           (Inl (ValueError 0),
            \<lparr>docstore_after = add_documents (self_docstore self) (map FromLangchain docs),
             evolutions_after = [], submitted = [], calls = []\<rparr>)"
    unfolding generate_with_langchain_docs_def generate_invalid[OF inv] by (simp add: w d)
  have b: "generate_with_llamaindex_docs self ev docs args =
           (Inl (ValueError 0),
            \<lparr>docstore_after = add_documents (self_docstore self) (map FromLlamaindex docs),
             evolutions_after = [], submitted = [], calls = []\<rparr>)"
    unfolding generate_with_llamaindex_docs_def generate_invalid[OF inv] by (simp add: w d)
  have c: "docs \<noteq> [] \<longrightarrow>
              add_documents (self_docstore self) (map FromLangchain docs) \<noteq> self_docstore self
              \<and> add_documents (self_docstore self) (map FromLlamaindex docs) \<noteq> self_docstore self"
  proof
    assume ne: "docs \<noteq> []"
    have "documents (add_documents (self_docstore self) (map FromLangchain docs))
        \<noteq> documents (self_docstore self)"
      using ne by (simp add: add_documents_def)
    moreover have "documents (add_documents (self_docstore self) (map FromLlamaindex docs))
        \<noteq> documents (self_docstore self)"
      using ne by (simp add: add_documents_def)
    ultimately show "add_documents (self_docstore self) (map FromLangchain docs) \<noteq> self_docstore self
              \<and> add_documents (self_docstore self) (map FromLlamaindex docs) \<noteq> self_docstore self"
      by metis
  qed
  show ?thesis using a b c by simp
qed

text \<open>At one document and a call that passes only \<^verbatim>\<open>test_size\<close>.\<close>

theorem generate_with_docs_default_witness:
  "distributions (args_default 5) = None
   \<and> generate_with_langchain_docs gen0 (env_ok 5) [''text''] (args_default 5) =
        (Inl (ValueError 0),
         \<lparr>docstore_after = ds0\<lparr>documents := [FromLangchain ''text'']\<rparr>,
          evolutions_after = [], submitted = [], calls = []\<rparr>)
   \<and> ds0\<lparr>documents := [FromLangchain ''text'']\<rparr> \<noteq> ds0"
proof -
  have d: "distributions (args_default 5) = None" by (simp add: args_default_def)
  show ?thesis
    using generate_with_docs_default[OF d, of gen0 "env_ok 5" "[''text'']"] d
    by (simp add: gen0_def ds0_def add_documents_def)
qed

subsection \<open>The policy on failed jobs\<close>

text \<open>
  C6, as amended. When the caller does not pass \<^verbatim>\<open>raise_exceptions\<close>, \<^verbatim>\<open>generate\<close>
  does exactly what it does with \<^verbatim>\<open>raise_exceptions=True\<close>: the strict policy is the
  default of line 183, not an explicit request. When the caller passes
  \<^verbatim>\<open>raise_exceptions=False\<close>, \<^verbatim>\<open>generate\<close> raises no job's error: a job that exhausts
  its retries yields the sentinel, which is dropped, and the dataset holds the rows of
  the other jobs. What the executor does with an exhausted job under
  \<^verbatim>\<open>raise_exceptions=True\<close> is decided in the executor and is not stated here.
\<close>

theorem generate_failure_policy:
  "(raise_exceptions args = None \<longrightarrow>
      the_raise_exceptions args
      \<and> generate self ev args = generate self ev (args\<lparr>raise_exceptions := Some True\<rparr>))
   \<and> (raise_exceptions args = Some False \<longrightarrow>
        (\<forall>m. fst (generate self ev args) \<noteq> Inl (JobError m))
        \<and> (\<forall>td. fst (generate self ev args) = Inr td \<longrightarrow>
              test_data td =
                surviving_rows (job_outcome ev)
                  [0 ..< length (submitted (snd (generate self ev args)))]))"
proof (intro conjI impI allI)
  assume "raise_exceptions args = None"
  then show "the_raise_exceptions args" by (simp add: the_raise_exceptions_def)
next
  assume "raise_exceptions args = None"
  then show "generate self ev args = generate self ev (args\<lparr>raise_exceptions := Some True\<rparr>)"
    by (rule generate_default_flag)
next
  fix m
  assume "raise_exceptions args = Some False"
  then have "\<not> the_raise_exceptions args" by (simp add: the_raise_exceptions_def)
  then show "fst (generate self ev args) \<noteq> Inl (JobError m)"
    using generate_error_kinds[of self ev args m] by blast
next
  fix td
  assume "raise_exceptions args = Some False" and a: "fst (generate self ev args) = Inr td"
  have "outcome_of_jobs (the_raise_exceptions args) ev (submitted (snd (generate self ev args)))
      = Inr td"
    using a generate_raises_or_jobs[of self ev args] by auto
  then show "test_data td =
                surviving_rows (job_outcome ev)
                  [0 ..< length (submitted (snd (generate self ev args)))]"
    by (rule outcome_of_jobs_rows)
qed

text \<open>
  At one strategy of weight 1, \<^verbatim>\<open>test_size = 1\<close> and a job that exhausts its retries:
  without the flag, and with \<^verbatim>\<open>raise_exceptions=False\<close>, where the dataset is empty.
\<close>

theorem generate_failure_policy_witness:
  "raise_exceptions (args0 1 all_simple) = None
   \<and> generate gen0 (env_fail 1) (args0 1 all_simple) =
       generate gen0 (env_fail 1) ((args0 1 all_simple)\<lparr>raise_exceptions := Some True\<rparr>)
   \<and> raise_exceptions ((args0 1 all_simple)\<lparr>raise_exceptions := Some False\<rparr>) = Some False
   \<and> exhausted (job_outcome (env_fail 1) 0)
   \<and> fst (generate gen0 (env_fail 1) ((args0 1 all_simple)\<lparr>raise_exceptions := Some False\<rparr>))
       = Inr \<lparr>test_data = []\<rparr>
   \<and> surviving_rows (job_outcome (env_fail 1))
       [0 ..< length (submitted (snd (generate gen0 (env_fail 1)
                ((args0 1 all_simple)\<lparr>raise_exceptions := Some False\<rparr>))))] = []"
proof -
  have n: "raise_exceptions (args0 1 all_simple) = None" by (simp add: args0_def)
  have e: "exhausted (job_outcome (env_fail 1) 0)" by (simp add: env_fail_def all_exhaust_def)
  have f: "raise_exceptions ((args0 1 all_simple)\<lparr>raise_exceptions := Some False\<rparr>) = Some False"
    by simp
  show ?thesis
    using generate_failure_policy[of "args0 1 all_simple" gen0 "env_fail 1"]
      generate_failure_policy[of "(args0 1 all_simple)\<lparr>raise_exceptions := Some False\<rparr>" gen0 "env_fail 1"]
      n e f all_simple_lenient
    by simp
qed

text \<open>
  The claim as stated fails: it takes the policy of a call without the flag to be the
  one that does not raise, and the strict policy to be in force only on request. The
  flag is not passed, and the executor is configured to raise: the call is the call
  with \<^verbatim>\<open>raise_exceptions=True\<close>.
\<close>

theorem generate_failure_policy_counterexample:
  "raise_exceptions (args0 1 all_simple) = None
   \<and> the_raise_exceptions (args0 1 all_simple)
   \<and> generate gen0 (env_fail 1) (args0 1 all_simple) =
       generate gen0 (env_fail 1) ((args0 1 all_simple)\<lparr>raise_exceptions := Some True\<rparr>)"
proof -
  have n: "raise_exceptions (args0 1 all_simple) = None" by (simp add: args0_def)
  have re: "the_raise_exceptions (args0 1 all_simple)"
    by (simp add: the_raise_exceptions_def args0_def)
  show ?thesis using n re generate_default_flag[OF n, of gen0 "env_fail 1"] by simp
qed

subsection \<open>Preconditions of save and adapt\<close>

text \<open>
  C7, as amended. With an in-memory docstore whose extractor is set: when some strategy
  of the list has an unset node filter, question filter or, for a composite kind,
  evolution filter, \<^verbatim>\<open>save\<close> fails with an AssertionError before \<^verbatim>\<open>save\<close> is called on
  the first such strategy or on any strategy after it; by then \<^verbatim>\<open>save\<close> has been
  called on the extractor and on every strategy before that one. \<^verbatim>\<open>adapt\<close> calls
  \<^verbatim>\<open>adapt\<close> on the extractor first and then, for each strategy in order,
  \<^verbatim>\<open>init_evolution\<close>, \<^verbatim>\<open>init\<close> and \<^verbatim>\<open>adapt\<close>; \<^verbatim>\<open>init_evolution\<close> binds the unset
  filters of a strategy without a generation model. So when some strategy has a
  generation model of its own and an unset filter, \<^verbatim>\<open>adapt\<close> fails with an
  AssertionError at the first such strategy, before \<^verbatim>\<open>adapt\<close> is called on it or on any
  strategy after it; by then \<^verbatim>\<open>adapt\<close> has been called on the extractor and on every
  strategy before that one. When there is no such strategy \<^verbatim>\<open>adapt\<close> makes all the
  calls and returns.
\<close>

theorem save_adapt_order:
  assumes "in_memory (self_docstore self)" and "extractor (self_docstore self) \<noteq> None"
  shows "(\<not> list_all filters_set evs \<longrightarrow>
           (\<exists>m\<in>set assertion_messages.
              save self evs cd =
                (Some (AssertionError m),
                 ExtractorSave cd #
                   map (\<lambda>i. EvolutionSave i cd) [0 ..< length (takeWhile filters_set evs)])))
         \<and> (\<not> list_all (\<lambda>e. generator_llm e = None \<or> filters_set e) evs \<longrightarrow>
             (\<exists>m. adapt self lang evs cd =
                (Some (AssertionError m),
                 map (init_evolution self)
                     (take (Suc (length (takeWhile (\<lambda>e. generator_llm e = None \<or> filters_set e) evs))) evs)
                   @ drop (Suc (length (takeWhile (\<lambda>e. generator_llm e = None \<or> filters_set e) evs))) evs,
                 ExtractorAdapt lang cd #
                   concat (map (\<lambda>i. [EvolutionInit i None None, EvolutionAdapt i lang cd])
                     [0 ..< length (takeWhile (\<lambda>e. generator_llm e = None \<or> filters_set e) evs)])
                   @ [EvolutionInit
                        (length (takeWhile (\<lambda>e. generator_llm e = None \<or> filters_set e) evs))
                        None None])))
         \<and> (list_all (\<lambda>e. generator_llm e = None \<or> filters_set e) evs \<longrightarrow>
             adapt self lang evs cd =
               (None, map (init_evolution self) evs,
                ExtractorAdapt lang cd #
                  concat (map (\<lambda>i. [EvolutionInit i None None, EvolutionAdapt i lang cd])
                            [0 ..< length evs])))"
proof (intro conjI impI)
  assume "\<not> list_all filters_set evs"
  then show "\<exists>m\<in>set assertion_messages.
              save self evs cd =
                (Some (AssertionError m),
                 ExtractorSave cd #
                   map (\<lambda>i. EvolutionSave i cd) [0 ..< length (takeWhile filters_set evs)])"
    using save_loop_unset[of evs cd 0 "[ExtractorSave cd]"] assms by (simp add: save_def)
next
  assume "\<not> list_all (\<lambda>e. generator_llm e = None \<or> filters_set e) evs"
  then have u: "\<not> list_all (\<lambda>e. filters_set (init_evolution self e)) evs"
    by (simp add: filters_after_init)
  have a: "adapt self lang evs cd =
      adapt_loop self lang cd 0 evs [ExtractorAdapt lang cd]"
    using assms by (auto simp: adapt_def)
  show "\<exists>m. adapt self lang evs cd =
                (Some (AssertionError m),
                 map (init_evolution self)
                     (take (Suc (length (takeWhile (\<lambda>e. generator_llm e = None \<or> filters_set e) evs))) evs)
                   @ drop (Suc (length (takeWhile (\<lambda>e. generator_llm e = None \<or> filters_set e) evs))) evs,
                 ExtractorAdapt lang cd #
                   concat (map (\<lambda>i. [EvolutionInit i None None, EvolutionAdapt i lang cd])
                     [0 ..< length (takeWhile (\<lambda>e. generator_llm e = None \<or> filters_set e) evs)])
                   @ [EvolutionInit
                        (length (takeWhile (\<lambda>e. generator_llm e = None \<or> filters_set e) evs))
                        None None])"
    using adapt_loop_unset[OF u, of lang cd 0 "[ExtractorAdapt lang cd]"]
    unfolding a filters_after_init by simp
next
  assume "list_all (\<lambda>e. generator_llm e = None \<or> filters_set e) evs"
  then have u: "list_all (\<lambda>e. filters_set (init_evolution self e)) evs"
    by (simp add: filters_after_init)
  show "adapt self lang evs cd =
             (None, map (init_evolution self) evs,
              ExtractorAdapt lang cd #
                concat (map (\<lambda>i. [EvolutionInit i None None, EvolutionAdapt i lang cd])
                          [0 ..< length evs]))"
    using assms by (auto simp: adapt_def adapt_loop_ok[OF u])
qed

text \<open>
  At a list of a bound strategy followed by one that has a model of its own and no
  filters, where both fail at the second strategy, and at an unbound strategy, which
  \<^verbatim>\<open>adapt\<close> binds.
\<close>

theorem save_adapt_order_witness:
  "in_memory (self_docstore gen0) \<and> extractor (self_docstore gen0) \<noteq> None
   \<and> \<not> filters_set preset \<and> generator_llm preset \<noteq> None
   \<and> save gen0 [init_evolution gen0 simple, preset] None =
       (Some (AssertionError ''NodeFilter is not set''),
        [ExtractorSave None, EvolutionSave 0 None])
   \<and> adapt gen0 ''fr'' [init_evolution gen0 simple, preset] None =
       (Some (AssertionError ''filters are not set''),
        [init_evolution gen0 simple, preset],
        [ExtractorAdapt ''fr'' None,
         EvolutionInit 0 None None, EvolutionAdapt 0 ''fr'' None,
         EvolutionInit 1 None None])
   \<and> generator_llm simple = None
   \<and> adapt gen0 ''fr'' [simple] None =
       (None, [init_evolution gen0 simple],
        [ExtractorAdapt ''fr'' None,
         EvolutionInit 0 None None, EvolutionAdapt 0 ''fr'' None])"
proof -
  have a: "in_memory (self_docstore gen0)" "extractor (self_docstore gen0) \<noteq> None"
    by (simp_all add: gen0_def ds0_def)
  have p: "\<not> filters_set preset" "generator_llm preset \<noteq> None"
    by (simp_all add: filters_set_def preset_def unbound_def)
  have q: "generator_llm simple = None" by (simp add: simple_def unbound_def)
  have s: "save gen0 [init_evolution gen0 simple, preset] None =
       (Some (AssertionError ''NodeFilter is not set''),
        [ExtractorSave None, EvolutionSave 0 None])"
    by (simp add: save_def gen0_def ds0_def simple_def unbound_def preset_def init_evolution_def)
  have i: "init_evolution gen0 preset = preset"
    by (rule init_evolution_bound) (simp add: preset_def)
  have j: "init_evolution gen0 (init_evolution gen0 simple) = init_evolution gen0 simple"
    by (rule init_evolution_bound) (rule init_evolution_binds)
  have fs: "filters_set (init_evolution gen0 simple)"
    by (simp add: init_evolution_filters q)
  have t: "adapt gen0 ''fr'' [init_evolution gen0 simple, preset] None =
       (Some (AssertionError ''filters are not set''),
        [init_evolution gen0 simple, preset],
        [ExtractorAdapt ''fr'' None,
         EvolutionInit 0 None None, EvolutionAdapt 0 ''fr'' None,
         EvolutionInit 1 None None])"
    using a by (auto simp: adapt_def evolution_adapt_def i j fs p)
  have u: "[0 ..< Suc 0] = [0]" by simp
  show ?thesis
    using save_adapt_order[OF a, of "[init_evolution gen0 simple, preset]" None "''fr''"]
      save_adapt_order[OF a, of "[simple]" None "''fr''"] a s t p q
    by (simp add: u)
qed

text \<open>
  The claim as stated fails. \<^verbatim>\<open>save\<close> on a strategy without a node filter raises only
  after \<^verbatim>\<open>save\<close> was called on the extractor. \<^verbatim>\<open>adapt\<close> on a strategy that has a model
  of its own and no node filter raises only after \<^verbatim>\<open>adapt\<close> was called on the
  extractor, and \<^verbatim>\<open>adapt\<close> on a strategy without a model and without a node filter
  does not raise: line 274 binds the filters first.
\<close>

theorem save_adapt_order_counterexample:
  "node_filter simple = None
   \<and> save gen0 [simple] None =
       (Some (AssertionError ''NodeFilter is not set''), [ExtractorSave None])
   \<and> node_filter preset = None
   \<and> adapt gen0 ''fr'' [preset] None =
       (Some (AssertionError ''filters are not set''), [preset],
        [ExtractorAdapt ''fr'' None, EvolutionInit 0 None None])
   \<and> adapt gen0 ''fr'' [simple] None =
       (None, [init_evolution gen0 simple],
        [ExtractorAdapt ''fr'' None,
         EvolutionInit 0 None None, EvolutionAdapt 0 ''fr'' None])"
proof -
  have a: "in_memory (self_docstore gen0)" "extractor (self_docstore gen0) \<noteq> None"
    by (simp_all add: gen0_def ds0_def)
  have s: "node_filter simple = None
     \<and> save gen0 [simple] None =
       (Some (AssertionError ''NodeFilter is not set''), [ExtractorSave None])"
    by (simp add: save_def gen0_def ds0_def simple_def unbound_def)
  have p: "\<not> filters_set preset" "node_filter preset = None"
    by (simp_all add: filters_set_def preset_def unbound_def)
  have i: "init_evolution gen0 preset = preset"
    by (rule init_evolution_bound) (simp add: preset_def)
  have q: "generator_llm simple = None" by (simp add: simple_def unbound_def)
  have fs: "filters_set (init_evolution gen0 simple)"
    by (simp add: init_evolution_filters q)
  have t: "adapt gen0 ''fr'' [preset] None =
       (Some (AssertionError ''filters are not set''), [preset],
        [ExtractorAdapt ''fr'' None, EvolutionInit 0 None None])"
    using a by (auto simp: adapt_def evolution_adapt_def i p)
  have u: "adapt gen0 ''fr'' [simple] None =
       (None, [init_evolution gen0 simple],
        [ExtractorAdapt ''fr'' None,
         EvolutionInit 0 None None, EvolutionAdapt 0 ''fr'' None])"
    using a by (auto simp: adapt_def evolution_adapt_def fs)
  show ?thesis using s p t u by simp
qed

end
